theory Spec2Isabelle
  imports Complex_Main
begin

section \<open>Data model of the exchange emulator\<close>

text \<open>
  The Go package \<^verbatim>\<open>emul\<close> keeps every price, quantity and balance in a
  \<^verbatim>\<open>float64\<close>. Here these quantities are real numbers, and every function that
  computes with them takes the rounding \<open>rnd\<close> that is applied to the result of each
  arithmetic operation of the source, one operation at a time (negation, comparison and
  \<^verbatim>\<open>math.Abs\<close> do not round). With \<open>exact\<close>, which rounds nothing, the arithmetic is
  that of the real numbers; with \<open>round64\<close> it is that of binary64, round to nearest,
  ties to even, with gradual underflow. A theorem stated for \<open>rnd\<close> holds for every
  rounding. The infinities, NaN and overflow are not in this model: a number here is
  always finite. Ticks, ids and counters (\<^verbatim>\<open>int64\<close>, \<^verbatim>\<open>int\<close>) are integers; none of
  them comes near the 64-bit range in a replay. Pointers to an order
  (\<^verbatim>\<open>*Order\<close>, \<^verbatim>\<open>nil\<close>) are \<open>Order option\<close>; a Go method that mutates its
  receiver takes the exchange and returns the new one; a returned \<^verbatim>\<open>error\<close>
  is the left summand of the result, and the exchange is then the one passed in.
\<close>

definition exact :: "real \<Rightarrow> real" where [simp]: "exact x = x"

text \<open>
  Rounding to binary64. A number \<open>x\<close> other than zero is scaled by a power of two,
  \<open>\<bar>x\<bar> = m * 2 powi e\<close>, so that \<open>2 ^ 52 \<le> m < 2 ^ 53\<close>, or \<open>e = - 1074\<close> and
  \<open>m < 2 ^ 52\<close> when \<open>x\<close> is below the normal range; \<open>m\<close> is then rounded to the nearest
  integer, a tie to the even one. \<open>scaleUp\<close> and \<open>scaleDown\<close> find the exponent in
  steps of decreasing powers of two, which reach every shift up to 2047. A number below
  half of \<open>2 powi (- 1074)\<close> rounds to zero.
\<close>

fun scaleUp :: "nat list \<Rightarrow> real \<Rightarrow> int \<Rightarrow> real \<times> int" where
  "scaleUp [] m e = (m, e)"
| "scaleUp (k # ks) m e =
     (if m * 2 ^ k < 2 ^ 53 \<and> - 1074 \<le> e - int k then scaleUp ks (m * 2 ^ k) (e - int k)
      else scaleUp ks m e)"

fun scaleDown :: "nat list \<Rightarrow> real \<Rightarrow> int \<Rightarrow> real \<times> int" where
  "scaleDown [] m e = (m, e)"
| "scaleDown (k # ks) m e =
     (if 2 ^ 52 \<le> m / 2 ^ k then scaleDown ks (m / 2 ^ k) (e + int k) else scaleDown ks m e)"

definition roundHalfEven :: "real \<Rightarrow> int" where
  "roundHalfEven m =
     (let fl = \<lfloor>m\<rfloor>; r = m - of_int fl
      in if r < 1 / 2 then fl
         else if 1 / 2 < r then fl + 1
         else if even fl then fl else fl + 1)"

definition round64 :: "real \<Rightarrow> real" where
  "round64 x =
     (if x = 0 then 0
      else (let a = \<bar>x\<bar>; ks = [1024, 512, 256, 128, 64, 32, 16, 8, 4, 2, 1];
                (m, e) = (if a < 2 ^ 53 then scaleUp ks a 0 else scaleDown ks a 0)
            in sgn x * (of_int (roundHalfEven m) * 2 powi e)))"

lemma round64_0 [simp]: "round64 0 = 0"
  by (simp add: round64_def)

datatype OrderSide = SideBuy | SideSell

abbreviation ReasonEntryLong :: string where "ReasonEntryLong \<equiv> ''entry-long''"
abbreviation ReasonEntryShort :: string where "ReasonEntryShort \<equiv> ''entry-short''"
abbreviation ReasonExit :: string where "ReasonExit \<equiv> ''exit''"
abbreviation ReasonStopLoss :: string where "ReasonStopLoss \<equiv> ''stop-loss''"
abbreviation ReasonLiquidate :: string where "ReasonLiquidate \<equiv> ''liquidation''"

record OHLCBar =
  Open :: real
  High :: real
  Low :: real
  Close :: real
  Average :: real

text \<open>The zero value \<^verbatim>\<open>OHLCBar{}\<close>.\<close>

definition zeroBar :: OHLCBar where
  "zeroBar = \<lparr>Open = 0, High = 0, Low = 0, Close = 0, Average = 0\<rparr>"

record Balance =
  USD :: real
  Position :: real
  ShortCash :: real
  ShortMargin :: real
  Equity :: real
  EntryPrice :: real
  LastPrice :: real

text \<open>
  The fields of \<^verbatim>\<open>Order\<close> that share a name with a field of \<^verbatim>\<open>Balance\<close> carry
  the suffix \<open>_ord\<close>; those of \<^verbatim>\<open>LimitMiss\<close> that share one with \<^verbatim>\<open>Order\<close>
  the suffix \<open>_miss\<close>.
\<close>

record Order =
  ID :: int
  Symbol :: string
  Side :: OrderSide
  Qty :: real
  MidPrice :: real
  Price :: real
  Fee :: real
  ExecPnL :: real
  EquityBefore :: real
  Reason :: string
  StopKind :: string
  PositionAfter :: real
  USD_ord :: real
  ShortCash_ord :: real
  ShortMargin_ord :: real
  Equity_ord :: real
  EntryPrice_ord :: real
  Tick :: int
  PlacedTick :: int
  SpreadPct :: real
  SlippagePct :: real

datatype pendingKind = pendingOpenLong | pendingOpenShort | pendingClose

record pendingOrder =
  id_pending :: int
  kind :: pendingKind
  price :: real
  fraction :: real
  reason :: string
  stopKind :: string
  placedAtTick :: int
  lastReason :: string
  placedBar :: OHLCBar

record LimitMiss =
  Reason_miss :: string
  Kind :: string
  LimitPrice :: real
  PlacedTick_miss :: int
  CheckTick :: int
  PrevBar :: OHLCBar
  CurrBar :: OHLCBar

record Exchange =
  symbol :: string
  fee :: real
  slippagePct :: real
  spreadPct :: real
  spreadManual :: bool
  prevPrice :: real
  usd :: real
  position :: real
  entryPrice :: real
  shortCash :: real
  shortMargin :: real
  lastPrice :: real
  tick :: int
  orders :: "Order list"
  nextID :: int
  nextLimitID :: int
  pending :: "pendingOrder list"
  executedByID :: "int \<rightharpoonup> Order"
  limitFailed :: "string \<rightharpoonup> int"
  misses :: "LimitMiss list"
  lastBar :: OHLCBar
  hasLastBar :: bool

datatype error =
    ErrSymbolMismatch
  | ErrPriceNotSet
  | ErrPositionOpen
  | ErrNoPosition
  | ErrInvalidFraction
  | ErrPriceMustBePositive
  | ErrNoMoreBars
  | ErrSymbolEmpty
  | ErrBarsEmpty

section \<open>The exchange\<close>

definition NewExchange :: "string \<Rightarrow> real \<Rightarrow> real \<Rightarrow> real \<Rightarrow> real \<Rightarrow> Exchange" where
  "NewExchange smb startUSD fee0 slippagePct0 spreadPct0 =
     (let startUSD1 = (if startUSD < 0 then 0 else startUSD);
          fee1 = (if fee0 < 0 then 0 else fee0);
          slippagePct1 = (if slippagePct0 < 0 \<or> slippagePct0 \<ge> 1 then 0 else slippagePct0);
          outside = (spreadPct0 < 0 \<or> spreadPct0 \<ge> 1)
      in \<lparr>symbol = smb, fee = fee1, slippagePct = slippagePct1,
          spreadPct = (if outside then 0 else spreadPct0),
          spreadManual = (\<not> outside),
          prevPrice = 0, usd = startUSD1, position = 0, entryPrice = 0,
          shortCash = 0, shortMargin = 0, lastPrice = 0, tick = 0, orders = [],
          nextID = 0, nextLimitID = 0, pending = [], executedByID = Map.empty,
          limitFailed = Map.empty, misses = [], lastBar = zeroBar, hasLastBar = False\<rparr>)"

text \<open>
  \<^verbatim>\<open>Balance()\<close> reads the exchange and writes nothing: the model is a function from
  the exchange to the snapshot alone.
\<close>

definition Balance :: "(real \<Rightarrow> real) \<Rightarrow> Exchange \<Rightarrow> Balance" where
  "Balance rnd e =
     (let pr0 = lastPrice e;
          pr = (if pr0 \<le> 0 then entryPrice e else pr0);
          equity0 = rnd (rnd (usd e + shortCash e) + shortMargin e);
          equity = (if pr > 0 then rnd (equity0 + rnd (position e * pr)) else equity0)
      in \<lparr>USD = usd e, Position = position e, ShortCash = shortCash e,
          ShortMargin = shortMargin e, Equity = equity, EntryPrice = entryPrice e,
          LastPrice = lastPrice e\<rparr>)"

definition Orders :: "Exchange \<Rightarrow> Order list" where
  "Orders e = orders e"

definition applySpread :: "(real \<Rightarrow> real) \<Rightarrow> Exchange \<Rightarrow> OrderSide \<Rightarrow> real \<Rightarrow> real" where
  "applySpread rnd e side pr =
     (if pr \<le> 0 then pr
      else if spreadPct e \<le> 0 then pr
      else (let half = rnd (spreadPct e / 2)
            in case side of SideBuy \<Rightarrow> rnd (pr * rnd (1 + half))
                          | SideSell \<Rightarrow> rnd (pr * rnd (1 - half))))"

definition applySlippage :: "(real \<Rightarrow> real) \<Rightarrow> Exchange \<Rightarrow> OrderSide \<Rightarrow> real \<Rightarrow> real" where
  "applySlippage rnd e side pr =
     (if pr \<le> 0 then pr
      else if slippagePct e \<le> 0 then pr
      else (case side of SideBuy \<Rightarrow> rnd (pr * rnd (1 + slippagePct e))
                       | SideSell \<Rightarrow> rnd (pr * rnd (1 - slippagePct e))))"

definition execPrice :: "(real \<Rightarrow> real) \<Rightarrow> Exchange \<Rightarrow> OrderSide \<Rightarrow> real \<Rightarrow> real" where
  "execPrice rnd e side mid = applySlippage rnd e side (applySpread rnd e side mid)"

text \<open>
  The constants of \<^verbatim>\<open>updateSpread\<close> are decimal literals, which the compiler rounds
  to \<^verbatim>\<open>float64\<close>; \<^verbatim>\<open>math.Abs\<close> does not round.
\<close>

definition updateSpread :: "(real \<Rightarrow> real) \<Rightarrow> Exchange \<Rightarrow> real \<Rightarrow> Exchange" where
  "updateSpread rnd e pr =
     (if spreadManual e then e\<lparr>prevPrice := pr\<rparr>
      else if pr \<le> 0 then e
      else (let base = rnd 0.0001; minS = rnd 0.00005; maxS = rnd 0.0020;
                extra = (if prevPrice e > 0
                         then rnd (rnd (\<bar>rnd (pr - prevPrice e)\<bar> / prevPrice e) * rnd 0.01)
                         else 0);
                s0 = rnd (base + extra);
                s = (if s0 < minS then minS else if s0 > maxS then maxS else s0)
            in e\<lparr>spreadPct := s, prevPrice := pr\<rparr>))"

text \<open>
  \<^verbatim>\<open>recordOrder\<close> assigns the next order id, snapshots the balance after the trade
  and appends the order to the history.
\<close>

definition recordOrder ::
  "(real \<Rightarrow> real) \<Rightarrow> Exchange \<Rightarrow> OrderSide \<Rightarrow> real \<Rightarrow> real \<Rightarrow> real \<Rightarrow> real \<Rightarrow> real \<Rightarrow> real \<Rightarrow> string \<Rightarrow> string \<Rightarrow> int
   \<Rightarrow> Exchange \<times> Order" where
  "recordOrder rnd e side qty mid exec feeUSD execPnL equityBefore rsn sk placedTick =
     (let e1 = e\<lparr>nextID := nextID e + 1\<rparr>;
          bal = Balance rnd e1;
          ord = \<lparr>ID = nextID e1, Symbol = symbol e1, Side = side, Qty = qty, MidPrice = mid,
                 Price = exec, Fee = feeUSD, ExecPnL = execPnL, EquityBefore = equityBefore,
                 Reason = rsn, StopKind = sk, PositionAfter = position e1, USD_ord = usd e1,
                 ShortCash_ord = ShortCash bal, ShortMargin_ord = ShortMargin bal,
                 Equity_ord = Equity bal, EntryPrice_ord = EntryPrice bal, Tick = tick e1,
                 PlacedTick = placedTick, SpreadPct = spreadPct e1,
                 SlippagePct = slippagePct e1\<rparr>
      in (e1\<lparr>orders := orders e1 @ [ord]\<rparr>, ord))"

definition openLongAtPrice ::
  "(real \<Rightarrow> real) \<Rightarrow> Exchange \<Rightarrow> real \<Rightarrow> real \<Rightarrow> int \<Rightarrow> error + Exchange \<times> Order" where
  "openLongAtPrice rnd e pr0 fr placedTick =
     (if position e \<noteq> 0 then Inl ErrPositionOpen
      else if lastPrice e \<le> 0 then Inl ErrPriceNotSet
      else (let pr = (if pr0 \<le> 0 then lastPrice e else pr0)
            in if fr \<le> 0 \<or> fr > 1 then Inl ErrInvalidFraction
               else (let equityBefore = Equity (Balance rnd e);
                         mid = pr;
                         notional = rnd (usd e * fr)
                     in if notional \<le> 0 then Inl ErrInvalidFraction
                        else (let feeUSD = rnd (notional * fee e);
                                  net = rnd (notional - feeUSD)
                              in if net \<le> 0 then Inl ErrInvalidFraction
                                 else (let ep = execPrice rnd e SideBuy pr;
                                           qty = rnd (net / ep);
                                           execPnL = rnd (qty * rnd (mid - ep));
                                           e1 = e\<lparr>usd := rnd (usd e - notional), position := qty,
                                                  entryPrice := ep\<rparr>
                                       in Inr (recordOrder rnd e1 SideBuy qty mid ep feeUSD execPnL
                                                 equityBefore ReasonEntryLong [] placedTick))))))"

definition openShortAtPrice ::
  "(real \<Rightarrow> real) \<Rightarrow> Exchange \<Rightarrow> real \<Rightarrow> real \<Rightarrow> int \<Rightarrow> error + Exchange \<times> Order" where
  "openShortAtPrice rnd e pr0 fr placedTick =
     (if position e \<noteq> 0 then Inl ErrPositionOpen
      else if lastPrice e \<le> 0 then Inl ErrPriceNotSet
      else (let pr = (if pr0 \<le> 0 then lastPrice e else pr0)
            in if fr \<le> 0 \<or> fr > 1 then Inl ErrInvalidFraction
               else (let equityBefore = Equity (Balance rnd e);
                         mid = pr;
                         notional = rnd (usd e * fr)
                     in if notional \<le> 0 then Inl ErrInvalidFraction
                        else (let feeUSD = rnd (notional * fee e);
                                  net = rnd (notional - feeUSD)
                              in if net \<le> 0 then Inl ErrInvalidFraction
                                 else (let ep = execPrice rnd e SideSell pr;
                                           qty = rnd (notional / ep);
                                           execPnL = rnd (qty * rnd (ep - mid));
                                           e1 = e\<lparr>usd := rnd (usd e - notional),
                                                  shortMargin := rnd (shortMargin e + notional),
                                                  shortCash := rnd (shortCash e + net),
                                                  position := - qty, entryPrice := ep\<rparr>
                                       in Inr (recordOrder rnd e1 SideSell qty mid ep feeUSD execPnL
                                                 equityBefore ReasonEntryShort [] placedTick))))))"

text \<open>
  \<^verbatim>\<open>closeAtPrice\<close> values the equity at the closing price: it stores the price in
  \<^verbatim>\<open>lastPrice\<close> for the duration of the call and restores the saved one before
  each return.
\<close>

definition closeAtPrice ::
  "(real \<Rightarrow> real) \<Rightarrow> Exchange \<Rightarrow> real \<Rightarrow> string \<Rightarrow> string \<Rightarrow> Exchange \<times> Order" where
  "closeAtPrice rnd e pr rsn sk =
     (let savedLast = lastPrice e;
          e0 = e\<lparr>lastPrice := pr\<rparr>;
          equityBefore = Equity (Balance rnd e0);
          mid = pr
      in if position e0 > 0 then
           (let ep = execPrice rnd e0 SideSell pr;
                qty = position e0;
                revenue = rnd (qty * ep);
                feeUSD = rnd (revenue * fee e0);
                execPnL = rnd (qty * rnd (ep - mid));
                e1 = e0\<lparr>usd := rnd (usd e0 + rnd (revenue - feeUSD)), position := 0,
                       entryPrice := 0\<rparr>;
                (e2, ord) = recordOrder rnd e1 SideSell qty mid ep feeUSD execPnL equityBefore rsn sk
                              (tick e1)
            in (e2\<lparr>lastPrice := savedLast\<rparr>, ord))
         else if position e0 < 0 then
           (let ep = execPrice rnd e0 SideBuy pr;
                qty = - position e0;
                cost = rnd (qty * ep);
                feeUSD = rnd (cost * fee e0);
                execPnL = rnd (qty * rnd (mid - ep));
                total = rnd (cost + feeUSD);
                available = rnd (shortCash e0 + shortMargin e0)
            in if available < total then
                 (let equityBefore1 = Equity (Balance rnd e0);
                      e1 = e0\<lparr>usd := 0, shortCash := 0, shortMargin := 0, position := 0,
                             entryPrice := 0\<rparr>;
                      execPnL1 = - equityBefore1;
                      (e2, ord) = recordOrder rnd e1 SideBuy qty mid ep feeUSD execPnL1
                                    equityBefore1 ReasonLiquidate [] (tick e1)
                  in (e2\<lparr>lastPrice := savedLast\<rparr>, ord))
               else
                 (let e1 = (if total \<le> shortCash e0
                            then e0\<lparr>shortCash := rnd (shortCash e0 - total)\<rparr>
                            else (let total1 = rnd (total - shortCash e0);
                                      m = rnd (shortMargin e0 - total1)
                                  in e0\<lparr>shortCash := 0,
                                        shortMargin := (if m < 0 then 0 else m)\<rparr>));
                      e2 = e1\<lparr>position := 0, entryPrice := 0\<rparr>;
                      e3 = e2\<lparr>usd := rnd (usd e2 + rnd (shortCash e2 + shortMargin e2))\<rparr>;
                      e4 = e3\<lparr>shortCash := 0, shortMargin := 0\<rparr>;
                      (e5, ord) = recordOrder rnd e4 SideBuy qty mid ep feeUSD execPnL equityBefore
                                    rsn sk (tick e4)
                  in (e5\<lparr>lastPrice := savedLast\<rparr>, ord)))
         else
           (let (e1, ord) = recordOrder rnd e0 SideBuy 0 mid pr 0 0 equityBefore rsn sk (tick e0)
            in (e1\<lparr>lastPrice := savedLast\<rparr>, ord)))"

subsection \<open>Market orders and limit placement\<close>

definition OpenLong :: "(real \<Rightarrow> real) \<Rightarrow> Exchange \<Rightarrow> real \<Rightarrow> error + Exchange \<times> Order" where
  "OpenLong rnd e fr = openLongAtPrice rnd e (lastPrice e) fr (tick e)"

definition OpenShort :: "(real \<Rightarrow> real) \<Rightarrow> Exchange \<Rightarrow> real \<Rightarrow> error + Exchange \<times> Order" where
  "OpenShort rnd e fr = openShortAtPrice rnd e (lastPrice e) fr (tick e)"

definition CloseDeal :: "(real \<Rightarrow> real) \<Rightarrow> Exchange \<Rightarrow> string \<Rightarrow> error + Exchange \<times> Order" where
  "CloseDeal rnd e rsn0 =
     (if position e = 0 then Inl ErrNoPosition
      else if lastPrice e \<le> 0 then Inl ErrPriceNotSet
      else (let rsn = (if rsn0 = [] then ReasonExit else rsn0);
                (e1, ord) = closeAtPrice rnd e (lastPrice e) rsn []
            in Inr (e1, ord\<lparr>PlacedTick := tick e1\<rparr>)))"

definition LongLimit :: "Exchange \<Rightarrow> real \<Rightarrow> real \<Rightarrow> error + Exchange \<times> int" where
  "LongLimit e pr0 fr =
     (let pr = (if pr0 \<le> 0 then lastPrice e else pr0)
      in if pr \<le> 0 then Inl ErrPriceNotSet
         else if fr \<le> 0 \<or> fr > 1 then Inl ErrInvalidFraction
         else (let i = nextLimitID e + 1
               in Inr (e\<lparr>nextLimitID := i,
                         pending := pending e @
                           [\<lparr>id_pending = i, kind = pendingOpenLong, price = pr, fraction = fr,
                             reason = [], stopKind = [], placedAtTick = tick e,
                             lastReason = ''await_next_candle'', placedBar = lastBar e\<rparr>]\<rparr>, i)))"

definition ShortLimit :: "Exchange \<Rightarrow> real \<Rightarrow> real \<Rightarrow> error + Exchange \<times> int" where
  "ShortLimit e pr0 fr =
     (let pr = (if pr0 \<le> 0 then lastPrice e else pr0)
      in if pr \<le> 0 then Inl ErrPriceNotSet
         else if fr \<le> 0 \<or> fr > 1 then Inl ErrInvalidFraction
         else (let i = nextLimitID e + 1
               in Inr (e\<lparr>nextLimitID := i,
                         pending := pending e @
                           [\<lparr>id_pending = i, kind = pendingOpenShort, price = pr, fraction = fr,
                             reason = [], stopKind = [], placedAtTick = tick e,
                             lastReason = ''await_next_candle'', placedBar = lastBar e\<rparr>]\<rparr>, i)))"

definition CloseLimit :: "Exchange \<Rightarrow> real \<Rightarrow> string \<Rightarrow> string \<Rightarrow> error + Exchange \<times> int" where
  "CloseLimit e pr0 rsn0 sk =
     (let pr = (if pr0 \<le> 0 then lastPrice e else pr0)
      in if pr \<le> 0 then Inl ErrPriceNotSet
         else (let rsn = (if rsn0 = [] then ReasonExit else rsn0);
                   i = nextLimitID e + 1
               in Inr (e\<lparr>nextLimitID := i,
                         pending := pending e @
                           [\<lparr>id_pending = i, kind = pendingClose, price = pr, fraction = 0,
                             reason = rsn, stopKind = sk, placedAtTick = tick e,
                             lastReason = ''await_next_candle'', placedBar = lastBar e\<rparr>]\<rparr>, i)))"

text \<open>
  \<^verbatim>\<open>OpenLongLimit\<close>, \<^verbatim>\<open>OpenShortLimit\<close> and \<^verbatim>\<open>CloseDealLimit\<close> place the same
  pending order and return no order and the error alone.
\<close>

definition OpenLongLimit :: "Exchange \<Rightarrow> real \<Rightarrow> real \<Rightarrow> error + Exchange \<times> Order option" where
  "OpenLongLimit e pr fr =
     (case LongLimit e pr fr of Inl err \<Rightarrow> Inl err | Inr (e1, _) \<Rightarrow> Inr (e1, None))"

definition OpenShortLimit :: "Exchange \<Rightarrow> real \<Rightarrow> real \<Rightarrow> error + Exchange \<times> Order option" where
  "OpenShortLimit e pr fr =
     (case ShortLimit e pr fr of Inl err \<Rightarrow> Inl err | Inr (e1, _) \<Rightarrow> Inr (e1, None))"

definition CloseDealLimit :: "Exchange \<Rightarrow> real \<Rightarrow> string \<Rightarrow> string \<Rightarrow> error + Exchange \<times> Order option" where
  "CloseDealLimit e pr rsn sk =
     (case CloseLimit e pr rsn sk of Inl err \<Rightarrow> Inl err | Inr (e1, _) \<Rightarrow> Inr (e1, None))"

subsection \<open>The pending queue\<close>

definition pendingKindName :: "pendingKind \<Rightarrow> string" where
  "pendingKindName k =
     (case k of pendingOpenLong \<Rightarrow> ''open_long''
              | pendingOpenShort \<Rightarrow> ''open_short''
              | pendingClose \<Rightarrow> ''close'')"

definition priceInRange :: "real \<Rightarrow> real \<Rightarrow> real \<Rightarrow> bool" where
  "priceInRange pr low high =
     (if pr \<le> 0 \<or> low \<le> 0 \<or> high \<le> 0 then False
      else (let (low1, high1) = (if low > high then (high, low) else (low, high))
            in pr \<ge> low1 \<and> pr \<le> high1))"

text \<open>\<^verbatim>\<open>m[k]++\<close> on a Go map: a missing key reads as zero.\<close>

definition incr :: "(string \<rightharpoonup> int) \<Rightarrow> string \<Rightarrow> (string \<rightharpoonup> int)" where
  "incr m k = m(k \<mapsto> (case m k of None \<Rightarrow> 1 | Some c \<Rightarrow> c + 1))"

definition mkMiss :: "string \<Rightarrow> pendingOrder \<Rightarrow> int \<Rightarrow> OHLCBar \<Rightarrow> LimitMiss" where
  "mkMiss rsn p t bar =
     \<lparr>Reason_miss = rsn, Kind = pendingKindName (kind p), LimitPrice = price p,
      PlacedTick_miss = placedAtTick p, CheckTick = t, PrevBar = placedBar p, CurrBar = bar\<rparr>"

text \<open>
  One iteration of the draining loop of \<^verbatim>\<open>processPending\<close>, on a non-empty queue.
  \<open>Break\<close> is the loop's \<^verbatim>\<open>break\<close>; \<open>Continue\<close> carries the exchange with the head
  removed and the order this iteration executed, if any (\<^verbatim>\<open>executed\<close>). An
  error of \<^verbatim>\<open>openLongAtPrice\<close> or \<^verbatim>\<open>openShortAtPrice\<close> is discarded by the
  source (\<^verbatim>\<open>executed, _ = ...\<close>): the head is removed and nothing is recorded.
\<close>

datatype loopCtl = Break Exchange | Continue Exchange "Order option"

definition pendingIter :: "(real \<Rightarrow> real) \<Rightarrow> OHLCBar \<Rightarrow> Exchange \<Rightarrow> loopCtl" where
  "pendingIter rnd bar e =
     (case pending e of
        [] \<Rightarrow> Break e
      | p # rest \<Rightarrow>
          if tick e \<le> placedAtTick p then Break e
          else if \<not> priceInRange (price p) (Low bar) (High bar) then
            Break (e\<lparr>pending := p\<lparr>lastReason := ''price_not_in_hl''\<rparr> # rest,
                     limitFailed := incr (limitFailed e) ''price_not_in_hl'',
                     misses := misses e @ [mkMiss ''price_not_in_hl'' p (tick e) bar]\<rparr>)
          else
            (case kind p of
               pendingOpenLong \<Rightarrow>
                 if position e \<noteq> 0 then
                   Continue (e\<lparr>limitFailed := incr (limitFailed e) ''position_state_mismatch'',
                               pending := tl (pending e)\<rparr>) None
                 else
                   (case openLongAtPrice rnd e (price p) (fraction p) (placedAtTick p) of
                      Inl err \<Rightarrow> Continue (e\<lparr>pending := tl (pending e)\<rparr>) None
                    | Inr (e1, ord) \<Rightarrow>
                        Continue (e1\<lparr>pending := tl (pending e1),
                                     executedByID := (executedByID e1)(id_pending p \<mapsto> ord)\<rparr>)
                                 (Some ord))
             | pendingOpenShort \<Rightarrow>
                 if position e \<noteq> 0 then
                   Continue (e\<lparr>limitFailed := incr (limitFailed e) ''position_state_mismatch'',
                               pending := tl (pending e)\<rparr>) None
                 else
                   (case openShortAtPrice rnd e (price p) (fraction p) (placedAtTick p) of
                      Inl err \<Rightarrow> Continue (e\<lparr>pending := tl (pending e)\<rparr>) None
                    | Inr (e1, ord) \<Rightarrow>
                        Continue (e1\<lparr>pending := tl (pending e1),
                                     executedByID := (executedByID e1)(id_pending p \<mapsto> ord)\<rparr>)
                                 (Some ord))
             | pendingClose \<Rightarrow>
                 if position e = 0 then
                   Continue (e\<lparr>limitFailed := incr (limitFailed e) ''position_state_mismatch'',
                               pending := tl (pending e)\<rparr>) None
                 else
                   (let (e1, ord0) = closeAtPrice rnd e (price p) (reason p) (stopKind p);
                        ord = ord0\<lparr>PlacedTick := placedAtTick p\<rparr>
                    in Continue (e1\<lparr>pending := tl (pending e1),
                                    executedByID := (executedByID e1)(id_pending p \<mapsto> ord)\<rparr>)
                                (Some ord))))"

lemma pending_recordOrder [simp]:
  "pending (fst (recordOrder rnd e side qty mid exec feeUSD execPnL equityBefore rsn sk placedTick))
     = pending e"
  by (simp add: recordOrder_def Let_def)

lemma pending_openLongAtPrice:
  "openLongAtPrice rnd e pr fr t = Inr (e1, ord) \<Longrightarrow> pending e1 = pending e"
  by (auto simp: openLongAtPrice_def recordOrder_def Let_def split: if_splits)

lemma pending_openShortAtPrice:
  "openShortAtPrice rnd e pr fr t = Inr (e1, ord) \<Longrightarrow> pending e1 = pending e"
  by (auto simp: openShortAtPrice_def recordOrder_def Let_def split: if_splits)

lemma pending_closeAtPrice [simp]:
  "pending (fst (closeAtPrice rnd e pr rsn sk)) = pending e"
  by (simp add: closeAtPrice_def recordOrder_def Let_def split: prod.splits)

lemma pending_closeAtPrice_eq:
  "closeAtPrice rnd e pr rsn sk = (e1, ord) \<Longrightarrow> pending e1 = pending e"
  using pending_closeAtPrice [of rnd e pr rsn sk] by simp

lemma pendingIter_Continue_pending:
  assumes "pendingIter rnd bar e = Continue e1 x"
  shows "pending e \<noteq> [] \<and> pending e1 = tl (pending e)"
proof (cases "pending e")
  case Nil
  with assms show ?thesis by (simp add: pendingIter_def)
next
  case (Cons p rest)
  show ?thesis
    using assms Cons
    by (auto simp: pendingIter_def Let_def
             dest: pending_openLongAtPrice pending_openShortAtPrice pending_closeAtPrice_eq
             split: if_splits pendingKind.splits sum.splits prod.splits)
qed

text \<open>
  The draining loop: it runs while the queue is non-empty, and every iteration that
  does not break removes the head, so it ends. \<open>firstExecuted\<close> keeps the first
  order executed.
\<close>

function pendingLoop ::
  "(real \<Rightarrow> real) \<Rightarrow> OHLCBar \<Rightarrow> Exchange \<Rightarrow> Order option \<Rightarrow> Exchange \<times> Order option" where
  "pendingLoop rnd bar e firstExecuted =
     (if pending e = [] then (e, firstExecuted)
      else (case pendingIter rnd bar e of
              Break e1 \<Rightarrow> (e1, firstExecuted)
            | Continue e1 executed \<Rightarrow>
                pendingLoop rnd bar e1
                  (if firstExecuted = None \<and> executed \<noteq> None then executed else firstExecuted)))"
  by pat_completeness auto
termination
proof (relation "measure (\<lambda>(rnd, bar, e, firstExecuted). length (pending e))")
  show "wf (measure (\<lambda>(rnd, bar, e, firstExecuted). length (pending e)))" by simp
next
  fix rnd :: "real \<Rightarrow> real" and bar e firstExecuted e1 executed
  assume "pending e \<noteq> []" and "pendingIter rnd bar e = Continue e1 executed"
  then have "pending e1 = tl (pending e)"
    using pendingIter_Continue_pending by blast
  with \<open>pending e \<noteq> []\<close>
  show "((rnd, bar, e1,
          if firstExecuted = None \<and> executed \<noteq> None then executed else firstExecuted),
         (rnd, bar, e, firstExecuted))
        \<in> measure (\<lambda>(rnd, bar, e, firstExecuted). length (pending e))"
    by (cases "pending e") simp_all
qed

declare pendingLoop.simps [simp del]

text \<open>
  The second loop of \<^verbatim>\<open>processPending\<close> runs over the indices \<open>1, 2, ...\<close> of the
  queue, that is over the entries behind the head: an entry placed before the current
  tick gets the reason \<^verbatim>\<open>blocked_by_fifo_head\<close> and a miss is appended for it.
  \<open>markBlocked\<close> takes these entries and returns them updated, with the misses to
  append, in the order of the loop.
\<close>

fun markBlocked :: "OHLCBar \<Rightarrow> int \<Rightarrow> pendingOrder list \<Rightarrow> pendingOrder list \<times> LimitMiss list" where
  "markBlocked bar t [] = ([], [])"
| "markBlocked bar t (q # qs) =
     (let (qs1, ms) = markBlocked bar t qs
      in if t > placedAtTick q
         then (q\<lparr>lastReason := ''blocked_by_fifo_head''\<rparr> # qs1,
               mkMiss ''blocked_by_fifo_head'' q t bar # ms)
         else (q # qs1, ms))"

definition processPending ::
  "(real \<Rightarrow> real) \<Rightarrow> OHLCBar \<Rightarrow> Exchange \<Rightarrow> Exchange \<times> Order option" where
  "processPending rnd bar e =
     (if pending e = [] then (e, None)
      else (let (e1, firstExecuted) = pendingLoop rnd bar e None
            in case pending e1 of
                 [] \<Rightarrow> (e1, firstExecuted)
               | h # qs \<Rightarrow>
                   (let (qs1, ms) = markBlocked bar (tick e1) qs
                    in (e1\<lparr>pending := h # qs1, misses := misses e1 @ ms\<rparr>, firstExecuted))))"

text \<open>\<^verbatim>\<open>tickBarAt\<close>: the tick advance the emulator drives.\<close>

definition tickBarAt ::
  "(real \<Rightarrow> real) \<Rightarrow> Exchange \<Rightarrow> string \<Rightarrow> int \<Rightarrow> OHLCBar \<Rightarrow> error + Exchange \<times> Order option" where
  "tickBarAt rnd e smb t0 bar =
     (if smb \<noteq> symbol e then Inl ErrSymbolMismatch
      else (let pr = Close bar
            in if pr \<le> 0 then Inl ErrPriceMustBePositive
               else (let t = (if t0 < 0 then 0 else t0);
                         e1 = e\<lparr>tick := t\<rparr>;
                         e2 = updateSpread rnd e1 pr;
                         e3 = e2\<lparr>lastPrice := pr\<rparr>;
                         (e4, executed) = processPending rnd bar e3;
                         e5 = e4\<lparr>lastBar := bar, hasLastBar := True\<rparr>
                     in Inr (e5, executed))))"

section \<open>The emulator\<close>

record Emulator =
  symbol_em :: string
  bars :: "OHLCBar list"
  index :: nat
  ex :: Exchange

text \<open>
  \<^verbatim>\<open>strings.TrimSpace\<close> of the Go library removes the leading and the trailing
  white space of a string, as Unicode defines it. A Go string is its bytes, in UTF-8:
  \<open>spaceRunes\<close> lists the encodings of the white space characters (U+0009 to U+000D,
  U+0020, U+0085, U+00A0, U+1680, U+2000 to U+200A, U+2028, U+2029, U+202F, U+205F and
  U+3000). No encoding of a character is the end of the encoding of another, so the
  trailing white space is what \<open>dropRunes\<close> removes from the reversed string with
  the reversed encodings.
\<close>

definition spaceRunes :: "string list" where
  "spaceRunes =
     [[CHR 0x09], [CHR 0x0A], [CHR 0x0B], [CHR 0x0C], [CHR 0x0D], [CHR 0x20],
      [CHR 0xC2, CHR 0x85], [CHR 0xC2, CHR 0xA0], [CHR 0xE1, CHR 0x9A, CHR 0x80],
      [CHR 0xE2, CHR 0x80, CHR 0x80], [CHR 0xE2, CHR 0x80, CHR 0x81],
      [CHR 0xE2, CHR 0x80, CHR 0x82], [CHR 0xE2, CHR 0x80, CHR 0x83],
      [CHR 0xE2, CHR 0x80, CHR 0x84], [CHR 0xE2, CHR 0x80, CHR 0x85],
      [CHR 0xE2, CHR 0x80, CHR 0x86], [CHR 0xE2, CHR 0x80, CHR 0x87],
      [CHR 0xE2, CHR 0x80, CHR 0x88], [CHR 0xE2, CHR 0x80, CHR 0x89],
      [CHR 0xE2, CHR 0x80, CHR 0x8A], [CHR 0xE2, CHR 0x80, CHR 0xA8],
      [CHR 0xE2, CHR 0x80, CHR 0xA9], [CHR 0xE2, CHR 0x80, CHR 0xAF],
      [CHR 0xE2, CHR 0x81, CHR 0x9F], [CHR 0xE3, CHR 0x80, CHR 0x80]]"

function dropRunes :: "string list \<Rightarrow> string \<Rightarrow> string" where
  "dropRunes ws s =
     (case find (\<lambda>w. w \<noteq> [] \<and> take (length w) s = w) ws of
        None \<Rightarrow> s
      | Some w \<Rightarrow> dropRunes ws (drop (length w) s))"
  by pat_completeness auto
termination
proof (relation "measure (\<lambda>(ws, s). length s)")
  show "wf (measure (\<lambda>(ws, s). length s))" by simp
next
  fix ws :: "string list" and s w :: string
  assume "find (\<lambda>w. w \<noteq> [] \<and> take (length w) s = w) ws = Some w"
  then have w: "w \<noteq> []" "take (length w) s = w" by (auto simp: find_Some_iff)
  from arg_cong [OF w(2), of length] have "length w \<le> length s"
    by (simp add: min_def split: if_splits)
  with w(1) have "length (drop (length w) s) < length s"
    by (cases w) simp_all
  then show "((ws, drop (length w) s), (ws, s)) \<in> measure (\<lambda>(ws, s). length s)" by simp
qed

declare dropRunes.simps [simp del]

definition TrimSpace :: "string \<Rightarrow> string" where
  "TrimSpace s = rev (dropRunes (map rev spaceRunes) (rev (dropRunes spaceRunes s)))"

definition NewEmulator ::
  "string \<Rightarrow> real \<Rightarrow> real \<Rightarrow> real \<Rightarrow> real \<Rightarrow> OHLCBar list \<Rightarrow> error + Emulator" where
  "NewEmulator smb0 startUSD fee0 slippagePct0 spreadPct0 bs =
     (let smb = TrimSpace smb0
      in if smb = [] then Inl ErrSymbolEmpty
         else if bs = [] then Inl ErrBarsEmpty
         else Inr \<lparr>symbol_em = smb, bars = bs, index = 0,
                   ex = NewExchange smb startUSD fee0 slippagePct0 spreadPct0\<rparr>)"

text \<open>
  \<^verbatim>\<open>Next\<close> returns the emulator after the step, the bar and the orders executed in
  the step. The index is below the number of bars where the bar is read.
\<close>

definition Next :: "(real \<Rightarrow> real) \<Rightarrow> Emulator \<Rightarrow> error + Emulator \<times> OHLCBar \<times> Order list" where
  "Next rnd em =
     (if index em \<ge> length (bars em) then Inl ErrNoMoreBars
      else (let bar = bars em ! index em;
                before = Orders (ex em)
            in case tickBarAt rnd (ex em) (symbol_em em) (int (index em + 1)) bar of
                 Inl err \<Rightarrow> Inl err
               | Inr (ex1, first) \<Rightarrow>
                   (let after = Orders ex1;
                        executed = (if length after > length before
                                    then drop (length before) after else [])
                    in Inr (em\<lparr>ex := ex1, index := index em + 1\<rparr>, bar, executed))))"

section \<open>Closing a short: liquidation\<close>

lemma execPrice_cong:
  "spreadPct e1 = spreadPct e \<Longrightarrow> slippagePct e1 = slippagePct e \<Longrightarrow> execPrice rnd e1 side m = execPrice rnd e side m"
  by (simp add: execPrice_def applySpread_def applySlippage_def Let_def split: OrderSide.splits)

lemma execPrice_lastPrice [simp]: "execPrice rnd (e\<lparr>lastPrice := pr\<rparr>) side m = execPrice rnd e side m"
  by (rule execPrice_cong) simp_all

text \<open>
  \<open>liquidates e pr\<close>: the exchange is short and the reserved capital does not cover
  buying the position back at the mid price \<open>pr\<close>, with \<open>qty = - position\<close>,
  \<open>fee = qty * execPrice * feeRate\<close> and \<open>total = qty * execPrice + fee\<close>.
  \<open>wipedOut e pr e1 ord\<close>: what a liquidation leaves, \<open>e1\<close> being the exchange after
  the close of \<open>e\<close> and \<open>ord\<close> the order returned.
\<close>

definition liquidates :: "(real \<Rightarrow> real) \<Rightarrow> Exchange \<Rightarrow> real \<Rightarrow> bool" where
  "liquidates rnd e pr =
     (let ep = execPrice rnd e SideBuy pr;
          qty = - position e;
          cost = rnd (qty * ep);
          feeUSD = rnd (cost * fee e);
          total = rnd (cost + feeUSD)
      in position e < 0 \<and> rnd (shortCash e + shortMargin e) < total)"

definition wipedOut :: "(real \<Rightarrow> real) \<Rightarrow> Exchange \<Rightarrow> real \<Rightarrow> Exchange \<Rightarrow> Order \<Rightarrow> bool" where
  "wipedOut rnd e pr e1 ord =
     (usd e1 = 0 \<and> shortCash e1 = 0 \<and> shortMargin e1 = 0 \<and> position e1 = 0 \<and> entryPrice e1 = 0
      \<and> Reason ord = ReasonLiquidate
      \<and> EquityBefore ord = Equity (Balance rnd (e\<lparr>lastPrice := pr\<rparr>))
      \<and> ExecPnL ord = - EquityBefore ord
      \<and> Qty ord = - position e
      \<and> Price ord = execPrice rnd e SideBuy pr
      \<and> Fee ord = rnd (rnd (- position e * execPrice rnd e SideBuy pr) * fee e)
      \<and> orders e1 = orders e @ [ord\<lparr>PlacedTick := tick e\<rparr>])"

lemma closeAtPrice_liq:
  assumes "liquidates rnd e pr"
  shows "wipedOut rnd e pr (fst (closeAtPrice rnd e pr rsn sk)) (snd (closeAtPrice rnd e pr rsn sk))"
  using assms
  by (simp add: liquidates_def wipedOut_def closeAtPrice_def recordOrder_def Let_def Balance_def)

lemma wipedOut_PlacedTick: "wipedOut rnd e pr e1 ord \<Longrightarrow> wipedOut rnd e pr e1 (ord\<lparr>PlacedTick := t\<rparr>)"
  by (simp add: wipedOut_def)

lemma wipedOut_fields:
  "wipedOut exact e pr e1 ord \<Longrightarrow> wipedOut exact e pr (e1\<lparr>pending := q, executedByID := m\<rparr>) ord"
  by (simp add: wipedOut_def)

text \<open>
  The exchange as \<^verbatim>\<open>tickBarAt\<close> hands it to \<^verbatim>\<open>processPending\<close> at tick 2, after a
  first bar at 100, a short of the whole balance of 1000 (fee rate 0.001), a stop placed
  at 250, and a second bar that closes at 250.
\<close>

definition squeezedShort :: Exchange where
  "squeezedShort =
     (case tickBarAt exact (NewExchange ''btc'' 1000 0.001 0 0) ''btc'' 1
             \<lparr>Open = 100, High = 100, Low = 100, Close = 100, Average = 100\<rparr> of
        Inr (e1, _) \<Rightarrow>
          (case OpenShort exact e1 1 of
             Inr (e2, _) \<Rightarrow>
               (case CloseLimit e2 250 [] ''stop'' of
                  Inr (e3, _) \<Rightarrow> (updateSpread exact (e3\<lparr>tick := 2\<rparr>) 250)\<lparr>lastPrice := 250\<rparr>)))"

lemma squeezedShort_fields:
  "position squeezedShort = -10" "shortCash squeezedShort = 999"
  "shortMargin squeezedShort = 1000" "usd squeezedShort = 0" "lastPrice squeezedShort = 250"
  "fee squeezedShort = 0.001" "spreadPct squeezedShort = 0" "slippagePct squeezedShort = 0"
  "tick squeezedShort = 2" "entryPrice squeezedShort = 100"
  "pending squeezedShort =
     [\<lparr>id_pending = 1, kind = pendingClose, price = 250, fraction = 0, reason = ReasonExit,
       stopKind = ''stop'', placedAtTick = 1, lastReason = ''await_next_candle'',
       placedBar = \<lparr>Open = 100, High = 100, Low = 100, Close = 100, Average = 100\<rparr>\<rparr>]"
  by (simp_all add: squeezedShort_def tickBarAt_def NewExchange_def updateSpread_def
        processPending_def OpenShort_def openShortAtPrice_def CloseLimit_def Let_def Balance_def
        recordOrder_def execPrice_def applySpread_def applySlippage_def)

text \<open>
  C3: a close of a short position whose reserved capital \<open>shortCash + shortMargin\<close> is
  below \<open>total = qty * execPrice + fee\<close> is a liquidation. \<^verbatim>\<open>closeAtPrice\<close> zeroes
  \<open>usd\<close>, \<open>shortCash\<close>, \<open>shortMargin\<close>, \<open>position\<close> and \<open>entryPrice\<close>, and the
  order has the reason \<^verbatim>\<open>liquidation\<close> and \<open>ExecPnL = - EquityBefore\<close>, the equity
  before the close valued at the closing price, with no fee term. The same holds on
  both paths that close: the market close \<^verbatim>\<open>CloseDeal\<close> (at \<open>lastPrice\<close>) and a
  close-limit at the head of the queue that \<^verbatim>\<open>processPending\<close> fills (at its limit
  price).
\<close>

theorem short_close_liquidation:
  assumes "liquidates rnd e pr"
  shows "(case closeAtPrice rnd e pr rsn sk of (e1, ord) \<Rightarrow> wipedOut rnd e pr e1 ord)
    \<and> (pr = lastPrice e \<and> 0 < lastPrice e \<longrightarrow>
         (case CloseDeal rnd e rsn of Inl err \<Rightarrow> False | Inr (e1, ord) \<Rightarrow> wipedOut rnd e pr e1 ord))
    \<and> (pending e = p # rest \<and> kind p = pendingClose \<and> placedAtTick p < tick e
        \<and> priceInRange (price p) (Low bar) (High bar) \<and> pr = price p \<longrightarrow>
         (case pendingIter rnd bar e of
            Continue e1 (Some ord) \<Rightarrow> wipedOut rnd e pr e1 ord \<and> pending e1 = rest
          | _ \<Rightarrow> False))"
proof (intro conjI impI)
  obtain e1 ord where c: "closeAtPrice rnd e pr rsn sk = (e1, ord)" by (cases "closeAtPrice rnd e pr rsn sk")
  from closeAtPrice_liq [OF assms, of rsn sk] c
  show "case closeAtPrice rnd e pr rsn sk of (e1, ord) \<Rightarrow> wipedOut rnd e pr e1 ord" by simp
next
  assume a: "pr = lastPrice e \<and> 0 < lastPrice e"
  have neg: "position e < 0" using assms by (simp add: liquidates_def Let_def)
  let ?r = "if rsn = [] then ReasonExit else rsn"
  obtain e1 ord where c: "closeAtPrice rnd e (lastPrice e) ?r [] = (e1, ord)"
    by (cases "closeAtPrice rnd e (lastPrice e) ?r []")
  from closeAtPrice_liq [OF assms, of ?r "[]"] a c have "wipedOut rnd e pr e1 ord" by simp
  then have "wipedOut rnd e pr e1 (ord\<lparr>PlacedTick := tick e1\<rparr>)" by (rule wipedOut_PlacedTick)
  with a neg c
  show "case CloseDeal rnd e rsn of Inl err \<Rightarrow> False | Inr (e1, ord) \<Rightarrow> wipedOut rnd e pr e1 ord"
    by (simp add: CloseDeal_def Let_def)
next
  assume a: "pending e = p # rest \<and> kind p = pendingClose \<and> placedAtTick p < tick e
        \<and> priceInRange (price p) (Low bar) (High bar) \<and> pr = price p"
  then have a: "pending e = p # rest" "kind p = pendingClose" "placedAtTick p < tick e"
    "priceInRange (price p) (Low bar) (High bar)" and pr: "pr = price p"
    by blast+
  have neg: "position e < 0" using assms by (simp add: liquidates_def Let_def)
  obtain e1 ord where c: "closeAtPrice rnd e (price p) (reason p) (stopKind p) = (e1, ord)"
    by (cases "closeAtPrice rnd e (price p) (reason p) (stopKind p)")
  from closeAtPrice_liq [OF assms, of "reason p" "stopKind p"] pr c have "wipedOut rnd e pr e1 ord"
    by simp
  then have w: "wipedOut rnd e pr (e1\<lparr>pending := tl (pending e1),
       executedByID := (executedByID e1)(id_pending p \<mapsto> ord\<lparr>PlacedTick := placedAtTick p\<rparr>)\<rparr>)
       (ord\<lparr>PlacedTick := placedAtTick p\<rparr>)"
    by (simp add: wipedOut_def)
  have pe: "pending e1 = p # rest" using pending_closeAtPrice_eq [OF c] a by simp
  from a neg c w pe pr
  show "case pendingIter rnd bar e of
            Continue e1 (Some ord) \<Rightarrow> wipedOut rnd e pr e1 ord \<and> pending e1 = rest
          | _ \<Rightarrow> False"
    by (simp add: pendingIter_def Let_def)
qed

theorem short_close_liquidation_witness:
  "liquidates exact squeezedShort 250
   \<and> (case CloseDeal exact squeezedShort [] of
        Inl err \<Rightarrow> False
      | Inr (e1, ord) \<Rightarrow> wipedOut exact squeezedShort 250 e1 ord \<and> ExecPnL ord = 501)
   \<and> (case pendingIter exact \<lparr>Open = 100, High = 250, Low = 100, Close = 250, Average = 175\<rparr>
              squeezedShort of
        Continue e1 (Some ord) \<Rightarrow> wipedOut exact squeezedShort 250 e1 ord \<and> ExecPnL ord = 501
      | _ \<Rightarrow> False)"
proof -
  let ?bar = "\<lparr>Open = 100, High = 250, Low = 100, Close = 250, Average = 175\<rparr>"
  let ?p = "hd (pending squeezedShort)"
  have h: "liquidates exact squeezedShort 250"
    by (simp add: liquidates_def squeezedShort_fields execPrice_def applySpread_def
          applySlippage_def)
  have eq: "Equity (Balance exact (squeezedShort\<lparr>lastPrice := 250\<rparr>)) = - 501"
    by (simp add: Balance_def squeezedShort_fields)
  have r: "priceInRange 250 (Low ?bar) (High ?bar)"
    by (simp add: priceInRange_def)
  from short_close_liquidation [OF h, where rsn = "[]" and sk = "[]" and p = ?p and rest = "[]"
         and bar = ?bar] h eq r
  show ?thesis
    by (auto simp: squeezedShort_fields wipedOut_def
             split: sum.splits prod.splits loopCtl.splits option.splits)
qed

section \<open>Opening a short\<close>

text \<open>
  After one bar at 100, with 1000 USD and a fee rate of 0.001: flat, with a price.
\<close>

definition pricedFlat :: Exchange where
  "pricedFlat =
     (case tickBarAt exact (NewExchange ''btc'' 1000 0.001 0 0) ''btc'' 1
             \<lparr>Open = 100, High = 100, Low = 100, Close = 100, Average = 100\<rparr> of
        Inr (e1, _) \<Rightarrow> e1)"

lemma pricedFlat_fields:
  "position pricedFlat = 0" "shortCash pricedFlat = 0" "shortMargin pricedFlat = 0"
  "usd pricedFlat = 1000" "lastPrice pricedFlat = 100" "fee pricedFlat = 0.001"
  "spreadPct pricedFlat = 0" "slippagePct pricedFlat = 0" "tick pricedFlat = 1"
  "entryPrice pricedFlat = 0" "orders pricedFlat = []" "pending pricedFlat = []"
  by (simp_all add: pricedFlat_def tickBarAt_def NewExchange_def updateSpread_def
        processPending_def Let_def)




section \<open>Reachable states\<close>

text \<open>
  The public operations of the exchange and \<^verbatim>\<open>tickBarAt\<close>, as calls. A call that
  returns an error leaves the exchange as it was. \<open>run e cs\<close> is the exchange after
  the calls \<open>cs\<close>, made in order.
\<close>

datatype call =
    CallOpenLong real
  | CallOpenShort real
  | CallCloseDeal string
  | CallLongLimit real real
  | CallShortLimit real real
  | CallCloseLimit real string string
  | CallOpenLongLimit real real
  | CallOpenShortLimit real real
  | CallCloseDealLimit real string string
  | CallTickBarAt string int OHLCBar

fun applyCall :: "(real \<Rightarrow> real) \<Rightarrow> Exchange \<Rightarrow> call \<Rightarrow> Exchange" where
  "applyCall rnd e (CallOpenLong fr) = (case OpenLong rnd e fr of Inl err \<Rightarrow> e | Inr (e1, _) \<Rightarrow> e1)"
| "applyCall rnd e (CallOpenShort fr) = (case OpenShort rnd e fr of Inl err \<Rightarrow> e | Inr (e1, _) \<Rightarrow> e1)"
| "applyCall rnd e (CallCloseDeal rsn) = (case CloseDeal rnd e rsn of Inl err \<Rightarrow> e | Inr (e1, _) \<Rightarrow> e1)"
| "applyCall rnd e (CallLongLimit pr fr) = (case LongLimit e pr fr of Inl err \<Rightarrow> e | Inr (e1, _) \<Rightarrow> e1)"
| "applyCall rnd e (CallShortLimit pr fr) = (case ShortLimit e pr fr of Inl err \<Rightarrow> e | Inr (e1, _) \<Rightarrow> e1)"
| "applyCall rnd e (CallCloseLimit pr rsn sk) =
     (case CloseLimit e pr rsn sk of Inl err \<Rightarrow> e | Inr (e1, _) \<Rightarrow> e1)"
| "applyCall rnd e (CallOpenLongLimit pr fr) =
     (case OpenLongLimit e pr fr of Inl err \<Rightarrow> e | Inr (e1, _) \<Rightarrow> e1)"
| "applyCall rnd e (CallOpenShortLimit pr fr) =
     (case OpenShortLimit e pr fr of Inl err \<Rightarrow> e | Inr (e1, _) \<Rightarrow> e1)"
| "applyCall rnd e (CallCloseDealLimit pr rsn sk) =
     (case CloseDealLimit e pr rsn sk of Inl err \<Rightarrow> e | Inr (e1, _) \<Rightarrow> e1)"
| "applyCall rnd e (CallTickBarAt smb t bar) =
     (case tickBarAt rnd e smb t bar of Inl err \<Rightarrow> e | Inr (e1, _) \<Rightarrow> e1)"

definition run :: "(real \<Rightarrow> real) \<Rightarrow> Exchange \<Rightarrow> call list \<Rightarrow> Exchange" where
  "run rnd e cs = foldl (applyCall rnd) e cs"

lemma priceInRange_pos: "priceInRange pr low high \<Longrightarrow> 0 < pr"
  by (simp add: priceInRange_def split: if_splits)

lemma pendingLoop_preserves:
  "(\<And>b e. P b e \<Longrightarrow> pending e \<noteq> [] \<Longrightarrow>
        (case pendingIter rnd b e of Break e1 \<Rightarrow> P b e1 | Continue e1 x \<Rightarrow> P b e1))
   \<Longrightarrow> P bar e \<Longrightarrow> P bar (fst (pendingLoop rnd bar e firstExecuted))"
proof (induction rnd bar e firstExecuted rule: pendingLoop.induct)
  case (1 rnd bar e firstExecuted)
  note step = "1.prems"(1) and start = "1.prems"(2)
  show ?case
  proof (cases "pending e = []")
    case True
    then show ?thesis using start by (simp add: pendingLoop.simps [of rnd bar e])
  next
    case False
    note s = step [OF start False]
    show ?thesis
    proof (cases "pendingIter rnd bar e")
      case (Break e1)
      from s have "P bar e1" unfolding Break by simp
      with Break False show ?thesis by (simp add: pendingLoop.simps [of rnd bar e])
    next
      case (Continue e1 x)
      from s have "P bar e1" unfolding Continue by simp
      from "1.IH" [OF False Continue step this] Continue False
      show ?thesis by (simp add: pendingLoop.simps [of rnd bar e])
    qed
  qed
qed

section \<open>The balance snapshot\<close>

text \<open>
  \<^verbatim>\<open>Balance\<close> values the position at \<^verbatim>\<open>lastPrice\<close>, and at \<^verbatim>\<open>entryPrice\<close> when
  \<^verbatim>\<open>lastPrice\<close> is not positive. On an exchange that the operations have produced the
  second case values nothing: while no bar has set a price, no position has been opened
  and the entry price is zero. \<open>priced\<close> is this invariant; no arithmetic enters it,
  so every rounding keeps it.
\<close>

definition priced :: "Exchange \<Rightarrow> bool" where
  "priced e = (0 < lastPrice e \<or> (position e = 0 \<and> entryPrice e = 0))"

lemma priced_NewExchange: "priced (NewExchange smb startUSD fee0 slippagePct0 spreadPct0)"
  by (simp add: priced_def NewExchange_def Let_def)

lemma priced_openLongAtPrice:
  "openLongAtPrice rnd e pr0 fr t = Inr (e1, ord) \<Longrightarrow> priced e1"
  by (auto simp: openLongAtPrice_def recordOrder_def priced_def Let_def split: if_splits)

lemma priced_openShortAtPrice:
  "openShortAtPrice rnd e pr0 fr t = Inr (e1, ord) \<Longrightarrow> priced e1"
  by (auto simp: openShortAtPrice_def recordOrder_def priced_def Let_def split: if_splits)

lemma priced_closeAtPrice:
  "priced e \<Longrightarrow> priced (fst (closeAtPrice rnd e pr rsn sk))"
  by (auto simp: closeAtPrice_def recordOrder_def priced_def Let_def split: prod.splits)

lemma priced_frame:
  "priced e \<Longrightarrow> priced (e\<lparr>pending := q\<rparr>)"
  "priced e \<Longrightarrow> priced (e\<lparr>limitFailed := lf, pending := q\<rparr>)"
  "priced e \<Longrightarrow> priced (e\<lparr>pending := q, executedByID := m\<rparr>)"
  "priced e \<Longrightarrow> priced (e\<lparr>pending := q, limitFailed := lf, misses := ms\<rparr>)"
  "priced e \<Longrightarrow> priced (e\<lparr>pending := q, misses := ms\<rparr>)"
  "priced e \<Longrightarrow> priced (e\<lparr>nextLimitID := i, pending := q\<rparr>)"
  "priced e \<Longrightarrow> priced (e\<lparr>lastBar := b, hasLastBar := h\<rparr>)"
  by (simp_all add: priced_def)

lemma priced_pendingIter:
  assumes "priced e" and "pending e \<noteq> []"
  shows "case pendingIter rnd bar e of Break e1 \<Rightarrow> priced e1 | Continue e1 x \<Rightarrow> priced e1"
proof -
  obtain p rest where pe: "pending e = p # rest" using assms(2) by (cases "pending e") auto
  show ?thesis
  proof (cases "tick e \<le> placedAtTick p \<or> \<not> priceInRange (price p) (Low bar) (High bar)")
    case True
    with assms(1) pe show ?thesis by (auto simp: pendingIter_def priced_frame)
  next
    case False
    then have g: "\<not> tick e \<le> placedAtTick p" "priceInRange (price p) (Low bar) (High bar)"
      by simp_all
    show ?thesis
    proof (cases "kind p")
      case pendingOpenLong
      show ?thesis
      proof (cases "openLongAtPrice rnd e (price p) (fraction p) (placedAtTick p)")
        case (Inl err)
        with assms(1) pe g pendingOpenLong show ?thesis
          by (simp add: pendingIter_def priced_frame)
      next
        case (Inr r)
        obtain e1 ord where r: "r = (e1, ord)" by (cases r)
        from priced_openLongAtPrice [OF Inr [unfolded r]] have "priced e1" .
        with assms(1) pe g pendingOpenLong Inr r show ?thesis
          by (simp add: pendingIter_def priced_frame)
      qed
    next
      case pendingOpenShort
      show ?thesis
      proof (cases "openShortAtPrice rnd e (price p) (fraction p) (placedAtTick p)")
        case (Inl err)
        with assms(1) pe g pendingOpenShort show ?thesis
          by (simp add: pendingIter_def priced_frame)
      next
        case (Inr r)
        obtain e1 ord where r: "r = (e1, ord)" by (cases r)
        from priced_openShortAtPrice [OF Inr [unfolded r]] have "priced e1" .
        with assms(1) pe g pendingOpenShort Inr r show ?thesis
          by (simp add: pendingIter_def priced_frame)
      qed
    next
      case pendingClose
      obtain e1 ord where c: "closeAtPrice rnd e (price p) (reason p) (stopKind p) = (e1, ord)"
        by (cases "closeAtPrice rnd e (price p) (reason p) (stopKind p)")
      from priced_closeAtPrice [OF assms(1), of rnd "price p" "reason p" "stopKind p"] c
      have "priced e1" by simp
      with assms(1) pe g pendingClose c show ?thesis
        by (simp add: pendingIter_def priced_frame Let_def)
    qed
  qed
qed

lemma priced_pendingLoop: "priced e \<Longrightarrow> priced (fst (pendingLoop rnd bar e firstExecuted))"
  by (rule pendingLoop_preserves [where P = "\<lambda>b. priced"]) (simp_all add: priced_pendingIter)

lemma priced_processPending: "priced e \<Longrightarrow> priced (fst (processPending rnd bar e))"
  using priced_pendingLoop [of e rnd bar None]
  by (auto simp: processPending_def Let_def priced_frame split: prod.splits list.splits)

lemma priced_tickBarAt:
  assumes "tickBarAt rnd e smb t0 bar = Inr (e1, first)"
  shows "priced e1"
proof -
  let ?e3 = "(updateSpread rnd (e\<lparr>tick := if t0 < 0 then 0 else t0\<rparr>) (Close bar))\<lparr>lastPrice := Close bar\<rparr>"
  from assms have c: "0 < Close bar"
    by (auto simp: tickBarAt_def Let_def split: if_splits)
  then have "priced ?e3" by (simp add: priced_def)
  from priced_processPending [OF this, of rnd bar] assms show ?thesis
    by (auto simp: tickBarAt_def Let_def priced_frame split: if_splits prod.splits)
qed

lemma priced_CloseDeal:
  assumes "priced e" and "CloseDeal rnd e rsn = Inr (e1, ord)"
  shows "priced e1"
  using assms(2) priced_closeAtPrice [OF assms(1), of rnd "lastPrice e" "if rsn = [] then ReasonExit else rsn" "[]"]
  by (auto simp: CloseDeal_def Let_def split: if_splits prod.splits)

lemma priced_applyCall: "priced e \<Longrightarrow> priced (applyCall rnd e c)"
proof (cases c)
  case (CallOpenLong fr)
  assume "priced e"
  then show ?thesis using CallOpenLong
    by (auto simp: OpenLong_def split: sum.splits dest: priced_openLongAtPrice)
next
  case (CallOpenShort fr)
  assume "priced e"
  then show ?thesis using CallOpenShort
    by (auto simp: OpenShort_def split: sum.splits dest: priced_openShortAtPrice)
next
  case (CallCloseDeal rsn)
  assume "priced e"
  then show ?thesis using CallCloseDeal
    by (auto split: sum.splits dest: priced_CloseDeal)
next
  case (CallLongLimit pr fr)
  assume "priced e"
  then show ?thesis using CallLongLimit
    by (auto simp: LongLimit_def Let_def priced_frame split: sum.splits if_splits)
next
  case (CallShortLimit pr fr)
  assume "priced e"
  then show ?thesis using CallShortLimit
    by (auto simp: ShortLimit_def Let_def priced_frame split: sum.splits if_splits)
next
  case (CallCloseLimit pr rsn sk)
  assume "priced e"
  then show ?thesis using CallCloseLimit
    by (auto simp: CloseLimit_def Let_def priced_frame split: sum.splits if_splits)
next
  case (CallOpenLongLimit pr fr)
  assume "priced e"
  then show ?thesis using CallOpenLongLimit
    by (auto simp: OpenLongLimit_def LongLimit_def Let_def priced_frame split: sum.splits if_splits)
next
  case (CallOpenShortLimit pr fr)
  assume "priced e"
  then show ?thesis using CallOpenShortLimit
    by (auto simp: OpenShortLimit_def ShortLimit_def Let_def priced_frame split: sum.splits if_splits)
next
  case (CallCloseDealLimit pr rsn sk)
  assume "priced e"
  then show ?thesis using CallCloseDealLimit
    by (auto simp: CloseDealLimit_def CloseLimit_def Let_def priced_frame split: sum.splits if_splits)
next
  case (CallTickBarAt smb t bar)
  assume "priced e"
  then show ?thesis using CallTickBarAt
    by (auto split: sum.splits dest: priced_tickBarAt)
qed

lemma priced_run: "priced e \<Longrightarrow> priced (run rnd e cs)"
  unfolding run_def by (induction cs arbitrary: e) (simp_all add: priced_applyCall)

text \<open>
  C8: on every exchange that \<^verbatim>\<open>NewExchange\<close> and the public operations and
  \<^verbatim>\<open>tickBarAt\<close> produce, \<^verbatim>\<open>Balance()\<close> returns the stored fields unchanged, the
  equity \<open>usd + shortCash + shortMargin + position * lastPrice\<close> when \<open>lastPrice > 0\<close>,
  and \<open>usd + shortCash + shortMargin\<close>, the position value omitted, when
  \<open>lastPrice \<le> 0\<close>. The sums are the code's own, added in its order and each rounded;
  with \<open>exact\<close> they are the sums of the real numbers. \<^verbatim>\<open>Balance\<close> has no side
  effect: it is a function of the exchange alone and returns the snapshot alone.
\<close>

theorem Balance_reachable:
  "let e = run rnd (NewExchange smb startUSD fee0 slippagePct0 spreadPct0) cs;
       cash = rnd (rnd (usd e + shortCash e) + shortMargin e)
   in Balance rnd e =
        \<lparr>USD = usd e, Position = position e, ShortCash = shortCash e,
         ShortMargin = shortMargin e,
         Equity = (if lastPrice e > 0 then rnd (cash + rnd (position e * lastPrice e))
                   else cash),
         EntryPrice = entryPrice e, LastPrice = lastPrice e\<rparr>"
proof -
  have "priced (run rnd (NewExchange smb startUSD fee0 slippagePct0 spreadPct0) cs)"
    by (rule priced_run) (rule priced_NewExchange)
  then show ?thesis
    by (auto simp: Balance_def Let_def priced_def)
qed


text \<open>
  A bar at 100, a long of half the balance of 1000, and a bar that closes at 120: five
  units are held and 500 USD are left. Before any call there is no price.
\<close>

definition twoBars :: "call list" where
  "twoBars =
     [CallTickBarAt ''btc'' 1 \<lparr>Open = 100, High = 100, Low = 100, Close = 100, Average = 100\<rparr>,
      CallOpenLong (1 / 2),
      CallTickBarAt ''btc'' 2 \<lparr>Open = 100, High = 120, Low = 100, Close = 120, Average = 110\<rparr>]"

theorem Balance_reachable_witness:
  "Equity (Balance exact (run exact (NewExchange ''btc'' 1000 0 0 0) [])) = 1000
   \<and> lastPrice (run exact (NewExchange ''btc'' 1000 0 0 0) []) = 0
   \<and> Equity (Balance exact (run exact (NewExchange ''btc'' 1000 0 0 0) twoBars)) = 1100
   \<and> position (run exact (NewExchange ''btc'' 1000 0 0 0) twoBars) = 5
   \<and> lastPrice (run exact (NewExchange ''btc'' 1000 0 0 0) twoBars) = 120"
proof -
  have f: "usd (run exact (NewExchange ''btc'' 1000 0 0 0) twoBars) = 500"
    "position (run exact (NewExchange ''btc'' 1000 0 0 0) twoBars) = 5"
    "lastPrice (run exact (NewExchange ''btc'' 1000 0 0 0) twoBars) = 120"
    "shortCash (run exact (NewExchange ''btc'' 1000 0 0 0) twoBars) = 0"
    "shortMargin (run exact (NewExchange ''btc'' 1000 0 0 0) twoBars) = 0"
    by (simp_all add: run_def twoBars_def NewExchange_def tickBarAt_def updateSpread_def
          processPending_def OpenLong_def openLongAtPrice_def recordOrder_def Balance_def
          execPrice_def applySpread_def applySlippage_def Let_def)
  have g: "usd (run exact (NewExchange ''btc'' 1000 0 0 0) []) = 1000"
    "lastPrice (run exact (NewExchange ''btc'' 1000 0 0 0) []) = 0"
    "shortCash (run exact (NewExchange ''btc'' 1000 0 0 0) []) = 0"
    "shortMargin (run exact (NewExchange ''btc'' 1000 0 0 0) []) = 0"
    by (simp_all add: run_def NewExchange_def)
  from Balance_reachable [of exact "''btc''" 1000 0 0 0 "[]"]
       Balance_reachable [of exact "''btc''" 1000 0 0 0 twoBars] f g
  show ?thesis by (simp add: Let_def)
qed

section \<open>Position and entry price\<close>




















subsection \<open>Underflow\<close>






section \<open>The pending queue, tick by tick\<close>

text \<open>
  The exchange that \<^verbatim>\<open>tickBarAt\<close> hands to \<^verbatim>\<open>processPending\<close>: the tick is set
  (a negative one to zero), the spread is updated from the close, and the close is the
  last price.
\<close>

definition tickStart :: "(real \<Rightarrow> real) \<Rightarrow> Exchange \<Rightarrow> int \<Rightarrow> OHLCBar \<Rightarrow> Exchange" where
  "tickStart rnd e t0 bar =
     (updateSpread rnd (e\<lparr>tick := (if t0 < 0 then 0 else t0)\<rparr>) (Close bar))\<lparr>lastPrice := Close bar\<rparr>"

text \<open>
  \<open>markedBlocked t q\<close> is the entry \<open>q\<close> after the second loop of
  \<^verbatim>\<open>processPending\<close> at tick \<open>t\<close>. \<open>remark t q q1\<close> relates an entry \<open>q\<close> of the
  queue before a tick \<open>t\<close> to the same entry \<open>q1\<close> after it: an entry placed at tick
  \<open>t\<close> or later is untouched, an older one differs at most in its diagnostic
  \<^verbatim>\<open>lastReason\<close>. \<open>drained e0 e\<close>: the queue of \<open>e\<close> is the queue of \<open>e0\<close> without
  a prefix of entries that were all placed before the tick, and the history of \<open>e\<close>
  extends that of \<open>e0\<close> by at most one order for each entry removed.
\<close>

definition markedBlocked :: "int \<Rightarrow> pendingOrder \<Rightarrow> pendingOrder" where
  "markedBlocked t q =
     (if placedAtTick q < t then q\<lparr>lastReason := ''blocked_by_fifo_head''\<rparr> else q)"

definition remark :: "int \<Rightarrow> pendingOrder \<Rightarrow> pendingOrder \<Rightarrow> bool" where
  "remark t q q1 = (if t \<le> placedAtTick q then q1 = q else q1\<lparr>lastReason := lastReason q\<rparr> = q)"

definition drained :: "Exchange \<Rightarrow> Exchange \<Rightarrow> bool" where
  "drained e0 e =
     (tick e = tick e0
      \<and> (\<exists>dropped kept.
            pending e0 = dropped @ kept
            \<and> (\<forall>q \<in> set dropped. placedAtTick q < tick e0)
            \<and> list_all2 (remark (tick e0)) kept (pending e)
            \<and> length (orders e) \<le> length (orders e0) + length dropped)
      \<and> take (length (orders e0)) (orders e) = orders e0)"

lemma openLongAtPrice_frame:
  "openLongAtPrice rnd e pr fr t = Inr (e1, ord) \<Longrightarrow>
     tick e1 = tick e \<and> orders e1 = orders e @ [ord] \<and> pending e1 = pending e
     \<and> symbol e1 = symbol e
     \<and> misses e1 = misses e \<and> limitFailed e1 = limitFailed e
     \<and> executedByID e1 = executedByID e"
  by (auto simp: openLongAtPrice_def recordOrder_def Let_def split: if_splits)

lemma openShortAtPrice_frame:
  "openShortAtPrice rnd e pr fr t = Inr (e1, ord) \<Longrightarrow>
     tick e1 = tick e \<and> orders e1 = orders e @ [ord] \<and> pending e1 = pending e
     \<and> symbol e1 = symbol e
     \<and> misses e1 = misses e \<and> limitFailed e1 = limitFailed e
     \<and> executedByID e1 = executedByID e"
  by (auto simp: openShortAtPrice_def recordOrder_def Let_def split: if_splits)

lemma closeAtPrice_frame:
  "closeAtPrice rnd e pr rsn sk = (e1, ord) \<Longrightarrow>
     tick e1 = tick e \<and> orders e1 = orders e @ [ord] \<and> pending e1 = pending e
     \<and> symbol e1 = symbol e
     \<and> misses e1 = misses e \<and> limitFailed e1 = limitFailed e
     \<and> executedByID e1 = executedByID e \<and> lastPrice e1 = lastPrice e"
  by (auto simp: closeAtPrice_def recordOrder_def Let_def split: if_splits prod.splits)

text \<open>What one iteration does to the queue, the tick and the history.\<close>

lemma pendingIter_effect:
  assumes "pending e = p # rest"
  shows "(case pendingIter rnd bar e of
            Break e1 \<Rightarrow>
              tick e1 = tick e \<and> orders e1 = orders e
              \<and> (if tick e \<le> placedAtTick p then e1 = e
                  else \<not> priceInRange (price p) (Low bar) (High bar)
                       \<and> pending e1 = p\<lparr>lastReason := ''price_not_in_hl''\<rparr> # rest)
          | Continue e1 x \<Rightarrow>
              tick e1 = tick e \<and> placedAtTick p < tick e
              \<and> priceInRange (price p) (Low bar) (High bar)
              \<and> pending e1 = rest
              \<and> (case x of
                     None \<Rightarrow> orders e1 = orders e
                   | Some ord \<Rightarrow>
                       (\<exists>stored. orders e1 = orders e @ [stored]
                                 \<and> ord = stored\<lparr>PlacedTick := PlacedTick ord\<rparr>)))"
  using assms
  by (auto simp: pendingIter_def Let_def 
           dest!: openLongAtPrice_frame openShortAtPrice_frame closeAtPrice_frame
           split: pendingKind.splits sum.splits prod.splits)


lemma remark_refl: "remark t q q"
  by (simp add: remark_def)

lemma remark_placedAtTick:
  assumes "remark t q q1"
  shows "placedAtTick q1 = placedAtTick q"
proof (cases "t \<le> placedAtTick q")
  case True
  with assms show ?thesis by (simp add: remark_def)
next
  case False
  with assms have "q1\<lparr>lastReason := lastReason q\<rparr> = q" by (simp add: remark_def)
  then have "placedAtTick (q1\<lparr>lastReason := lastReason q\<rparr>) = placedAtTick q" by simp
  then show ?thesis by simp
qed

lemma remark_lastReason:
  assumes "remark t q q1" and "placedAtTick q1 < t"
  shows "remark t q (q1\<lparr>lastReason := r\<rparr>)"
proof -
  have "\<not> t \<le> placedAtTick q" using remark_placedAtTick [OF assms(1)] assms(2) by simp
  with assms(1) show ?thesis by (simp add: remark_def)
qed

lemma drained_refl: "drained e e"
proof -
  have "list_all2 (remark (tick e)) (pending e) (pending e)"
    by (simp add: list_all2_refl remark_refl)
  then have "\<exists>kept.
            pending e = [] @ kept
            \<and> (\<forall>q \<in> set []. placedAtTick q < tick e)
            \<and> list_all2 (remark (tick e)) kept (pending e)
            \<and> length (orders e) \<le> length (orders e) + length ([] :: pendingOrder list)"
    by (intro exI [of _ "pending e"]) simp
  then have "\<exists>dropped kept.
            pending e = dropped @ kept
            \<and> (\<forall>q \<in> set dropped. placedAtTick q < tick e)
            \<and> list_all2 (remark (tick e)) kept (pending e)
            \<and> length (orders e) \<le> length (orders e) + length dropped"
    by (rule exI)
  then show ?thesis unfolding drained_def by simp
qed

lemma drained_pendingIter:
  assumes "drained e0 e" and ne: "pending e \<noteq> []"
  shows "case pendingIter rnd bar e of Break e1 \<Rightarrow> drained e0 e1 | Continue e1 x \<Rightarrow> drained e0 e1"
proof -
  obtain p rest where pe: "pending e = p # rest" using ne by (cases "pending e") auto
  from assms(1) obtain dropped kept where d: "tick e = tick e0" "pending e0 = dropped @ kept"
      "\<forall>q \<in> set dropped. placedAtTick q < tick e0"
      "list_all2 (remark (tick e0)) kept (pending e)"
      "length (orders e) \<le> length (orders e0) + length dropped"
      "take (length (orders e0)) (orders e) = orders e0"
    unfolding drained_def by blast
  from d(4) pe obtain q kept1 where k: "kept = q # kept1" "remark (tick e0) q p"
      "list_all2 (remark (tick e0)) kept1 rest"
    by (auto simp: list_all2_Cons2)
  have "length (take (length (orders e0)) (orders e)) = length (orders e0)"
    using d(6) by simp
  then have len: "length (orders e0) \<le> length (orders e)"
    by (simp add: min_def split: if_splits)
  note eff = pendingIter_effect [OF pe, where bar = bar and rnd = rnd]
  show ?thesis
  proof (cases "pendingIter rnd bar e")
    case (Break e1)
    from eff Break have b: "tick e1 = tick e" "orders e1 = orders e"
      "if tick e \<le> placedAtTick p then e1 = e
       else pending e1 = p\<lparr>lastReason := ''price_not_in_hl''\<rparr> # rest"
      by (simp_all split: if_splits)
    have "list_all2 (remark (tick e0)) kept (pending e1)"
    proof (cases "tick e \<le> placedAtTick p")
      case True
      with b(3) d(4) show ?thesis by simp
    next
      case False
      with b(3) have "pending e1 = p\<lparr>lastReason := ''price_not_in_hl''\<rparr> # rest" by simp
      moreover have "remark (tick e0) q (p\<lparr>lastReason := ''price_not_in_hl''\<rparr>)"
        using k(2) False d(1) by (intro remark_lastReason) simp_all
      ultimately show ?thesis using k by simp
    qed
    with d b have "drained e0 e1"
      unfolding drained_def by auto
    with Break show ?thesis by simp
  next
    case (Continue e1 x)
    from eff Continue have c: "tick e1 = tick e" "placedAtTick p < tick e" "pending e1 = rest"
      "case x of None \<Rightarrow> orders e1 = orders e
       | Some ord \<Rightarrow> (\<exists>stored. orders e1 = orders e @ [stored]
                                 \<and> ord = stored\<lparr>PlacedTick := PlacedTick ord\<rparr>)"
      by simp_all
    from c(4) have o: "length (orders e1) \<le> length (orders e) + 1"
       "take (length (orders e)) (orders e1) = orders e"
      by (cases x; auto)+
    have pq: "placedAtTick q < tick e0"
      using remark_placedAtTick [OF k(2)] c(2) d(1) by simp
    have t: "take (length (orders e0)) (orders e1) = orders e0"
    proof -
      have "take (length (orders e0)) (orders e1)
            = take (length (orders e0)) (take (length (orders e)) (orders e1))"
        using len by (simp add: min_def)
      then show ?thesis using o(2) d(6) by simp
    qed
    have ex: "\<exists>dropped kept.
            pending e0 = dropped @ kept
            \<and> (\<forall>q \<in> set dropped. placedAtTick q < tick e0)
            \<and> list_all2 (remark (tick e0)) kept (pending e1)
            \<and> length (orders e1) \<le> length (orders e0) + length dropped"
    proof (rule exI [of _ "dropped @ [q]"], rule exI [of _ kept1], intro conjI)
      show "pending e0 = (dropped @ [q]) @ kept1" using d(2) k(1) by simp
      show "\<forall>a\<in>set (dropped @ [q]). placedAtTick a < tick e0" using d(3) pq by auto
      show "list_all2 (remark (tick e0)) kept1 (pending e1)" using k(3) c(3) by simp
      show "length (orders e1) \<le> length (orders e0) + length (dropped @ [q])"
        using o(1) d(5) by simp
    qed
    have "tick e1 = tick e0" using c(1) d(1) by simp
    with ex t have "drained e0 e1"
      unfolding drained_def by blast
    with Continue show ?thesis by simp
  qed
qed

lemma drained_pendingLoop: "drained e0 e \<Longrightarrow> drained e0 (fst (pendingLoop rnd bar e firstExecuted))"
  by (rule pendingLoop_preserves [where P = "\<lambda>b. drained e0"]) (simp_all add: drained_pendingIter)


lemma markBlocked_eq:
  "markBlocked bar t qs =
     (map (markedBlocked t) qs,
      map (\<lambda>q. mkMiss ''blocked_by_fifo_head'' q t bar) (filter (\<lambda>q. placedAtTick q < t) qs))"
  by (induction qs) (simp_all add: markedBlocked_def)

lemma remark_markedBlocked: "remark t q q1 \<Longrightarrow> remark t q (markedBlocked t q1)"
  unfolding markedBlocked_def by (simp add: remark_lastReason)

lemma list_all2_remark_map:
  "list_all2 (remark t) ks qs \<Longrightarrow> list_all2 (remark t) ks (map (markedBlocked t) qs)"
  by (induction rule: list_all2_induct) (simp_all add: remark_markedBlocked)

lemma drained_marks:
  assumes "drained e0 e" and pe: "pending e = h # qs"
  shows "drained e0 (e\<lparr>pending := h # map (markedBlocked (tick e)) qs, misses := ms\<rparr>)"
proof -
  from assms(1) obtain dropped kept where d: "tick e = tick e0" "pending e0 = dropped @ kept"
      "\<forall>q \<in> set dropped. placedAtTick q < tick e0"
      "list_all2 (remark (tick e0)) kept (pending e)"
      "length (orders e) \<le> length (orders e0) + length dropped"
      "take (length (orders e0)) (orders e) = orders e0"
    unfolding drained_def by blast
  from d(4) pe obtain q kept1 where k: "kept = q # kept1" "remark (tick e0) q h"
      "list_all2 (remark (tick e0)) kept1 qs"
    by (auto simp: list_all2_Cons2)
  have "list_all2 (remark (tick e0)) kept (h # map (markedBlocked (tick e)) qs)"
    using k d(1) by (simp add: list_all2_remark_map)
  with d(2,3,5) have "\<exists>dropped kept.
       pending e0 = dropped @ kept
       \<and> (\<forall>q \<in> set dropped. placedAtTick q < tick e0)
       \<and> list_all2 (remark (tick e0)) kept (h # map (markedBlocked (tick e)) qs)
       \<and> length (orders e) \<le> length (orders e0) + length dropped"
    by blast
  with d(1,6) show ?thesis unfolding drained_def by simp
qed

lemma drained_processPending:
  assumes "drained e0 e"
  shows "drained e0 (fst (processPending rnd bar e))"
proof (cases "pending e = []")
  case True
  with assms show ?thesis by (simp add: processPending_def)
next
  case False
  obtain e1 fe where l: "pendingLoop rnd bar e None = (e1, fe)" by (cases "pendingLoop rnd bar e None")
  from drained_pendingLoop [OF assms, of rnd bar None] l have d1: "drained e0 e1" by simp
  show ?thesis
  proof (cases "pending e1")
    case Nil
    with False l d1 show ?thesis by (simp add: processPending_def)
  next
    case (Cons h qs)
    from drained_marks [OF d1 Cons] False l Cons show ?thesis
      by (simp add: processPending_def markBlocked_eq)
  qed
qed

lemma pending_updateSpread [simp]: "pending (updateSpread rnd e pr) = pending e"
  by (simp add: updateSpread_def Let_def)

lemma orders_updateSpread [simp]: "orders (updateSpread rnd e pr) = orders e"
  by (simp add: updateSpread_def Let_def)

lemma tick_updateSpread [simp]: "tick (updateSpread rnd e pr) = tick e"
  by (simp add: updateSpread_def Let_def)

lemma tickBarAt_Inr:
  "tickBarAt rnd e smb t0 bar = Inr (e1, first) \<longleftrightarrow>
     smb = symbol e \<and> 0 < Close bar
     \<and> e1 = (fst (processPending rnd bar (tickStart rnd e t0 bar)))\<lparr>lastBar := bar, hasLastBar := True\<rparr>
     \<and> first = snd (processPending rnd bar (tickStart rnd e t0 bar))"
  by (auto simp: tickBarAt_def tickStart_def Let_def split: prod.splits)

lemma tickStart_fields [simp]:
  "pending (tickStart rnd e t0 bar) = pending e"
  "orders (tickStart rnd e t0 bar) = orders e"
  "tick (tickStart rnd e t0 bar) = (if t0 < 0 then 0 else t0)"
  by (simp_all add: tickStart_def)

text \<open>
  C2: no same-tick fill. After a tick \<open>t\<close> (the tick passed, or zero for a negative
  one), the entries that left the queue, executed or dropped, are its first \<open>k\<close>
  entries, and each of them was placed at a tick strictly before \<open>t\<close>; at most \<open>k\<close>
  orders were executed. Every other entry is still queued, in order, and an entry
  placed at tick \<open>t\<close> or later sits there unchanged: processing tick \<open>T\<close> never
  executes an order placed at tick \<open>T\<close>.
\<close>

theorem no_same_tick_fill:
  assumes "tickBarAt rnd e smb t0 bar = Inr (e1, first)"
  shows "let t = (if t0 < 0 then 0 else t0);
             k = length (pending e) - length (pending e1)
         in tick e1 = t
            \<and> length (pending e1) \<le> length (pending e)
            \<and> (\<forall>q \<in> set (take k (pending e)). placedAtTick q < t)
            \<and> list_all2 (remark t) (drop k (pending e)) (pending e1)
            \<and> length (orders e1) \<le> length (orders e) + k
            \<and> (\<forall>i < length (pending e). t \<le> placedAtTick (pending e ! i) \<longrightarrow>
                  k \<le> i \<and> pending e1 ! (i - k) = pending e ! i)"
proof -
  define t where "t = (if t0 < 0 then 0 else t0)"
  define k where "k = length (pending e) - length (pending e1)"
  define s where "s = tickStart rnd e t0 bar"
  define s1 where "s1 = fst (processPending rnd bar s)"
  have e1: "e1 = s1\<lparr>lastBar := bar, hasLastBar := True\<rparr>"
    using assms by (simp add: tickBarAt_Inr s_def s1_def)
  have "drained s s1" unfolding s1_def by (intro drained_processPending drained_refl)
  then obtain dropped kept where d: "tick s1 = tick s" "pending s = dropped @ kept"
      "\<forall>q \<in> set dropped. placedAtTick q < tick s"
      "list_all2 (remark (tick s)) kept (pending s1)"
      "length (orders s1) \<le> length (orders s) + length dropped"
    unfolding drained_def by blast
  have ts: "tick s = t" "pending s = pending e" "orders s = orders e"
    by (simp_all add: s_def t_def)
  have p1: "pending e1 = pending s1" "orders e1 = orders s1" "tick e1 = tick s1"
    by (simp_all add: e1)
  have lk: "length kept = length (pending e1)"
    using d(4) p1 by (simp add: list_all2_lengthD)
  have kd: "k = length dropped"
    using d(2) ts(2) lk by (simp add: k_def)
  have td: "take k (pending e) = dropped" "drop k (pending e) = kept"
    using d(2) ts(2) kd by simp_all
  have a: "tick e1 = t" using p1 d(1) ts by simp
  have b: "length (pending e1) \<le> length (pending e)" using d(2) ts(2) lk by simp
  have c: "\<forall>q \<in> set (take k (pending e)). placedAtTick q < t" using d(3) td ts by simp
  have r: "list_all2 (remark t) (drop k (pending e)) (pending e1)" using d(4) td ts p1 by simp
  have o: "length (orders e1) \<le> length (orders e) + k" using d(5) ts p1 kd by simp
  have f: "\<forall>i < length (pending e). t \<le> placedAtTick (pending e ! i) \<longrightarrow>
                  k \<le> i \<and> pending e1 ! (i - k) = pending e ! i"
  proof (intro allI impI)
    fix i assume i: "i < length (pending e)" and pl: "t \<le> placedAtTick (pending e ! i)"
    have ki: "k \<le> i"
    proof (rule ccontr)
      assume "\<not> k \<le> i"
      then have "i < k" by simp
      then have "pending e ! i \<in> set (take k (pending e))"
        using i by (metis in_set_conv_nth length_take min_less_iff_conj nth_take)
      with c pl show False by auto
    qed
    have ik: "i - k < length (drop k (pending e))" using i ki by simp
    from list_all2_nthD [OF r ik] have "remark t (drop k (pending e) ! (i - k)) (pending e1 ! (i - k))" .
    moreover have "drop k (pending e) ! (i - k) = pending e ! i" using i ki by simp
    ultimately have "remark t (pending e ! i) (pending e1 ! (i - k))" by simp
    with pl have "pending e1 ! (i - k) = pending e ! i" by (simp add: remark_def)
    with ki show "k \<le> i \<and> pending e1 ! (i - k) = pending e ! i" by simp
  qed
  from a b c r o f show ?thesis
    unfolding Let_def t_def [symmetric] k_def [symmetric] by blast
qed

text \<open>
  A long limit at 100 placed at tick 1, on the flat exchange that has seen one bar.
\<close>

definition queuedAtTick1 :: Exchange where
  "queuedAtTick1 = (case LongLimit pricedFlat 100 1 of Inr (e1, _) \<Rightarrow> e1)"

lemma queuedAtTick1_fields:
  "pending queuedAtTick1 =
     [\<lparr>id_pending = 1, kind = pendingOpenLong, price = 100, fraction = 1, reason = [],
       stopKind = [], placedAtTick = 1, lastReason = ''await_next_candle'',
       placedBar = \<lparr>Open = 100, High = 100, Low = 100, Close = 100, Average = 100\<rparr>\<rparr>]"
  "symbol queuedAtTick1 = ''btc''" "orders queuedAtTick1 = []"
  by (simp_all add: queuedAtTick1_def LongLimit_def pricedFlat_fields Let_def
        pricedFlat_def tickBarAt_def NewExchange_def updateSpread_def processPending_def)

theorem no_same_tick_fill_witness:
  "(case tickBarAt exact queuedAtTick1 ''btc'' 1
           \<lparr>Open = 100, High = 110, Low = 90, Close = 105, Average = 101\<rparr> of
      Inl err \<Rightarrow> False
    | Inr (e1, first) \<Rightarrow>
        placedAtTick (pending queuedAtTick1 ! 0) = 1
        \<and> priceInRange (price (pending queuedAtTick1 ! 0)) 90 110
        \<and> length (pending e1) = 1
        \<and> pending e1 ! 0 = pending queuedAtTick1 ! 0
        \<and> orders e1 = [])"
proof (cases "tickBarAt exact queuedAtTick1 ''btc'' 1
           \<lparr>Open = 100, High = 110, Low = 90, Close = 105, Average = 101\<rparr>")
  case (Inl err)
  then show ?thesis by (simp add: tickBarAt_def queuedAtTick1_fields split: prod.splits)
next
  case (Inr r)
  obtain e1 first where r: "r = (e1, first)" by (cases r)
  define k where "k = length (pending queuedAtTick1) - length (pending e1)"
  have t1: "(if (1::int) < 0 then 0 else 1) = 1" by simp
  note full = no_same_tick_fill [OF Inr [unfolded r], unfolded Let_def t1 k_def [symmetric]]
  have h: "length (pending e1) \<le> length (pending queuedAtTick1)"
       "length (orders e1) \<le> length (orders queuedAtTick1) + k"
       "\<forall>i < length (pending queuedAtTick1). 1 \<le> placedAtTick (pending queuedAtTick1 ! i) \<longrightarrow>
                  k \<le> i \<and> pending e1 ! (i - k) = pending queuedAtTick1 ! i"
    using full by blast+
  from h(3) have k0: "k = 0" and p0: "pending e1 ! 0 = pending queuedAtTick1 ! 0"
    by (simp_all add: queuedAtTick1_fields)
  from k0 h(1) have "length (pending e1) = 1"
    unfolding k_def by (simp add: queuedAtTick1_fields)
  moreover from k0 h(2) have "orders e1 = []"
    by (simp add: queuedAtTick1_fields)
  moreover note p0
  ultimately have "length (pending e1) = 1" "orders e1 = []"
       "pending e1 ! 0 = pending queuedAtTick1 ! 0" .
  with Inr r show ?thesis
    by (simp add: queuedAtTick1_fields priceInRange_def)
qed


subsection \<open>A head out of the bar's range blocks the queue\<close>

lemma tickStart_more [simp]:
  "symbol (tickStart rnd e t0 bar) = symbol e"
  "usd (tickStart rnd e t0 bar) = usd e"
  "position (tickStart rnd e t0 bar) = position e"
  "entryPrice (tickStart rnd e t0 bar) = entryPrice e"
  "shortCash (tickStart rnd e t0 bar) = shortCash e"
  "shortMargin (tickStart rnd e t0 bar) = shortMargin e"
  "executedByID (tickStart rnd e t0 bar) = executedByID e"
  "limitFailed (tickStart rnd e t0 bar) = limitFailed e"
  "misses (tickStart rnd e t0 bar) = misses e"
  "lastPrice (tickStart rnd e t0 bar) = Close bar"
  by (simp_all add: tickStart_def updateSpread_def Let_def)

lemma outside_not_priceInRange:
  "pr < min low high \<or> max low high < pr \<Longrightarrow> \<not> priceInRange pr low high"
  by (auto simp: priceInRange_def split: if_splits)

lemma processPending_head_out_of_range:
  assumes "pending e = p # rest" and "placedAtTick p < tick e"
    and "\<not> priceInRange (price p) (Low bar) (High bar)"
  shows "processPending rnd bar e =
           (e\<lparr>pending := p\<lparr>lastReason := ''price_not_in_hl''\<rparr> # map (markedBlocked (tick e)) rest,
              limitFailed := incr (limitFailed e) ''price_not_in_hl'',
              misses := misses e @ mkMiss ''price_not_in_hl'' p (tick e) bar
                          # map (\<lambda>q. mkMiss ''blocked_by_fifo_head'' q (tick e) bar)
                              (filter (\<lambda>q. placedAtTick q < tick e) rest)\<rparr>, None)"
proof -
  let ?e1 = "e\<lparr>pending := p\<lparr>lastReason := ''price_not_in_hl''\<rparr> # rest,
                limitFailed := incr (limitFailed e) ''price_not_in_hl'',
                misses := misses e @ [mkMiss ''price_not_in_hl'' p (tick e) bar]\<rparr>"
  have i: "pendingIter rnd bar e = Break ?e1"
    using assms by (simp add: pendingIter_def)
  have l: "pendingLoop rnd bar e None = (?e1, None)"
    using assms(1) i by (simp add: pendingLoop.simps [of _ bar e])
  show ?thesis
    using assms(1) l by (simp add: processPending_def markBlocked_eq)
qed

text \<open>
  C1: when the head of the queue was placed at a tick strictly before the current one
  and its limit price lies outside the bar's interval between low and high (taken in
  either order), \<^verbatim>\<open>tickBarAt\<close> returns no order; the order history, the executed
  orders, the balances and the position are unchanged; every entry remains queued, in
  order, whatever the prices of the entries behind the head; the head gets the
  reason \<^verbatim>\<open>price_not_in_hl\<close>, counted once and logged as a miss; and after it every
  entry behind the head that was placed before the current tick gets the reason
  \<^verbatim>\<open>blocked_by_fifo_head\<close> and a miss of its own, in queue order.
\<close>

theorem fifo_head_blocking:
  assumes "smb = symbol e" and "0 < Close bar"
    and "pending e = p # rest"
    and "placedAtTick p < (if t0 < 0 then 0 else t0)"
    and "price p < min (Low bar) (High bar) \<or> max (Low bar) (High bar) < price p"
  shows "case tickBarAt rnd e smb t0 bar of
           Inl err \<Rightarrow> False
         | Inr (e1, first) \<Rightarrow>
             (let t = (if t0 < 0 then 0 else t0)
              in first = None
                 \<and> orders e1 = orders e \<and> executedByID e1 = executedByID e
                 \<and> usd e1 = usd e \<and> position e1 = position e \<and> entryPrice e1 = entryPrice e
                 \<and> shortCash e1 = shortCash e \<and> shortMargin e1 = shortMargin e
                 \<and> pending e1 =
                     p\<lparr>lastReason := ''price_not_in_hl''\<rparr> # map (markedBlocked t) rest
                 \<and> misses e1 =
                     misses e @ mkMiss ''price_not_in_hl'' p t bar
                       # map (\<lambda>q. mkMiss ''blocked_by_fifo_head'' q t bar)
                           (filter (\<lambda>q. placedAtTick q < t) rest)
                 \<and> limitFailed e1 = incr (limitFailed e) ''price_not_in_hl'')"
proof -
  let ?s = "tickStart rnd e t0 bar"
  have n: "\<not> priceInRange (price p) (Low bar) (High bar)"
    using assms(5) by (rule outside_not_priceInRange)
  have "pending ?s = p # rest" "placedAtTick p < tick ?s"
    using assms(3,4) by simp_all
  from processPending_head_out_of_range [OF this n]
  have pp: "processPending rnd bar ?s =
           (?s\<lparr>pending := p\<lparr>lastReason := ''price_not_in_hl''\<rparr> # map (markedBlocked (tick ?s)) rest,
              limitFailed := incr (limitFailed ?s) ''price_not_in_hl'',
              misses := misses ?s @ mkMiss ''price_not_in_hl'' p (tick ?s) bar
                          # map (\<lambda>q. mkMiss ''blocked_by_fifo_head'' q (tick ?s) bar)
                              (filter (\<lambda>q. placedAtTick q < tick ?s) rest)\<rparr>, None)" .
  obtain e1 first where r: "tickBarAt rnd e smb t0 bar = Inr (e1, first)"
    using assms(1,2) tickBarAt_Inr [of rnd e smb t0 bar] by simp
  then have e1: "e1 = (fst (processPending rnd bar ?s))\<lparr>lastBar := bar, hasLastBar := True\<rparr>"
      "first = snd (processPending rnd bar ?s)"
    by (simp_all add: tickBarAt_Inr)
  show ?thesis
    unfolding r using e1 by (simp add: pp Let_def)
qed


text \<open>
  A long limit at 50 and, behind it, a short limit at 100, both placed at tick 1.
\<close>

definition blockedQueue :: Exchange where
  "blockedQueue =
     (case LongLimit pricedFlat 50 1 of
        Inr (e1, _) \<Rightarrow> (case ShortLimit e1 100 1 of Inr (e2, _) \<Rightarrow> e2))"

lemma blockedQueue_fields:
  "pending blockedQueue =
     [\<lparr>id_pending = 1, kind = pendingOpenLong, price = 50, fraction = 1, reason = [],
       stopKind = [], placedAtTick = 1, lastReason = ''await_next_candle'',
       placedBar = \<lparr>Open = 100, High = 100, Low = 100, Close = 100, Average = 100\<rparr>\<rparr>,
      \<lparr>id_pending = 2, kind = pendingOpenShort, price = 100, fraction = 1, reason = [],
       stopKind = [], placedAtTick = 1, lastReason = ''await_next_candle'',
       placedBar = \<lparr>Open = 100, High = 100, Low = 100, Close = 100, Average = 100\<rparr>\<rparr>]"
  "symbol blockedQueue = ''btc''" "orders blockedQueue = []" "misses blockedQueue = []"
  "position blockedQueue = 0"
  by (simp_all add: blockedQueue_def LongLimit_def ShortLimit_def pricedFlat_fields Let_def
        pricedFlat_def tickBarAt_def NewExchange_def updateSpread_def processPending_def)

theorem fifo_head_blocking_witness:
  "(case tickBarAt exact blockedQueue ''btc'' 2
           \<lparr>Open = 100, High = 110, Low = 90, Close = 105, Average = 101\<rparr> of
      Inl err \<Rightarrow> False
    | Inr (e1, first) \<Rightarrow>
        priceInRange (price (pending blockedQueue ! 1)) 90 110
        \<and> first = None \<and> orders e1 = [] \<and> position e1 = 0
        \<and> map id_pending (pending e1) = [1, 2]
        \<and> map lastReason (pending e1) = [''price_not_in_hl'', ''blocked_by_fifo_head'']
        \<and> map Reason_miss (misses e1) = [''price_not_in_hl'', ''blocked_by_fifo_head'']
        \<and> map Kind (misses e1) = [''open_long'', ''open_short''])"
  using fifo_head_blocking [of "''btc''" blockedQueue
          "\<lparr>Open = 100, High = 110, Low = 90, Close = 105, Average = 101\<rparr>"
          "pending blockedQueue ! 0" "[pending blockedQueue ! 1]" 2, where rnd = exact]
  by (auto simp: blockedQueue_fields priceInRange_def markedBlocked_def mkMiss_def
        pendingKindName_def Let_def split: sum.splits)

subsection \<open>A head that conflicts with the position is dropped\<close>

lemma tickBarAt_tickStart:
  "tickBarAt rnd e smb t0 bar =
     (if smb \<noteq> symbol e then Inl ErrSymbolMismatch
      else if Close bar \<le> 0 then Inl ErrPriceMustBePositive
      else Inr ((fst (processPending rnd bar (tickStart rnd e t0 bar)))\<lparr>lastBar := bar, hasLastBar := True\<rparr>,
                snd (processPending rnd bar (tickStart rnd e t0 bar))))"
  by (simp add: tickBarAt_def tickStart_def Let_def split: prod.splits)

lemma pendingLoop_Nil: "pending s = [] \<Longrightarrow> pendingLoop rnd bar s fe = (s, fe)"
  by (subst pendingLoop.simps) simp

lemma tickStart_drop_head:
  "tickStart rnd (e\<lparr>limitFailed := m, pending := q\<rparr>) t0 bar
     = (tickStart rnd e t0 bar)\<lparr>limitFailed := m, pending := q\<rparr>"
  by (simp add: tickStart_def updateSpread_def Let_def)

text \<open>
  C7: the head of the queue has a price within the bar's range and a kind that
  conflicts with the position (an open-long or open-short while a position is open, a
  close while flat). When the head is older than the current tick, the iteration of
  the draining loop removes it, increments the counter \<^verbatim>\<open>position_state_mismatch\<close>
  by one, executes nothing and changes nothing else, and the loop, and with it
  \<^verbatim>\<open>processPending\<close>, goes on as from the exchange without that head. For a whole
  tick: \<^verbatim>\<open>tickBarAt\<close> returns no error, and its result is that of the same tick on the
  exchange without the head and with the counter incremented.
\<close>

theorem position_state_mismatch_drop:
  assumes "pending e = p # rest"
    and "priceInRange (price p) (Low bar) (High bar)"
    and "if kind p = pendingClose then position e = 0 else position e \<noteq> 0"
  shows "let e1 = e\<lparr>limitFailed := incr (limitFailed e) ''position_state_mismatch'',
                    pending := rest\<rparr>
         in (placedAtTick p < tick e \<longrightarrow>
               pendingIter rnd bar e = Continue e1 None
               \<and> pendingLoop rnd bar e firstExecuted = pendingLoop rnd bar e1 firstExecuted
               \<and> processPending rnd bar e = processPending rnd bar e1)
            \<and> (placedAtTick p < (if t0 < 0 then 0 else t0) \<and> smb = symbol e \<and> 0 < Close bar \<longrightarrow>
                 tickBarAt rnd e smb t0 bar = tickBarAt rnd e1 smb t0 bar
                 \<and> \<not> isl (tickBarAt rnd e smb t0 bar))
            \<and> limitFailed e1 ''position_state_mismatch''
                = Some ((case limitFailed e ''position_state_mismatch'' of
                           None \<Rightarrow> 0 | Some c \<Rightarrow> c) + 1)
            \<and> orders e1 = orders e \<and> executedByID e1 = executedByID e
            \<and> position e1 = position e \<and> usd e1 = usd e"
proof -
  define m where "m = incr (limitFailed e) ''position_state_mismatch''"
  have iter: "pendingIter rnd bar s = Continue (s\<lparr>limitFailed := m, pending := rest\<rparr>) None"
    if "pending s = p # rest" "placedAtTick p < tick s" "position s = position e"
       "limitFailed s = limitFailed e" for s
    using that assms(2,3) by (cases "kind p") (simp_all add: pendingIter_def m_def)
  have loop: "pendingLoop rnd bar s fe = pendingLoop rnd bar (s\<lparr>limitFailed := m, pending := rest\<rparr>) fe"
    if "pending s = p # rest" "placedAtTick p < tick s" "position s = position e"
       "limitFailed s = limitFailed e" for s fe
    using iter [OF that] that(1) by (simp add: pendingLoop.simps [of _ bar s])
  have proc: "processPending rnd bar s = processPending rnd bar (s\<lparr>limitFailed := m, pending := rest\<rparr>)"
    if "pending s = p # rest" "placedAtTick p < tick s" "position s = position e"
       "limitFailed s = limitFailed e" for s
  proof (cases "rest = []")
    case True
    have "pendingLoop rnd bar (s\<lparr>limitFailed := m, pending := rest\<rparr>) None
            = (s\<lparr>limitFailed := m, pending := rest\<rparr>, None)"
      using True by (simp add: pendingLoop_Nil)
    with loop [OF that, of None] that(1) True show ?thesis
      by (simp add: processPending_def)
  next
    case False
    with loop [OF that, of None] that(1) show ?thesis
      by (simp add: processPending_def)
  qed
  have a: "placedAtTick p < tick e \<longrightarrow>
               pendingIter rnd bar e = Continue (e\<lparr>limitFailed := m, pending := rest\<rparr>) None
               \<and> pendingLoop rnd bar e firstExecuted
                   = pendingLoop rnd bar (e\<lparr>limitFailed := m, pending := rest\<rparr>) firstExecuted
               \<and> processPending rnd bar e = processPending rnd bar (e\<lparr>limitFailed := m, pending := rest\<rparr>)"
    using iter [of e] loop [of e] proc [of e] assms(1) by simp
  have b: "placedAtTick p < (if t0 < 0 then 0 else t0) \<and> smb = symbol e \<and> 0 < Close bar \<longrightarrow>
                 tickBarAt rnd e smb t0 bar = tickBarAt rnd (e\<lparr>limitFailed := m, pending := rest\<rparr>) smb t0 bar
                 \<and> \<not> isl (tickBarAt rnd e smb t0 bar)"
  proof (intro impI)
    assume h: "placedAtTick p < (if t0 < 0 then 0 else t0) \<and> smb = symbol e \<and> 0 < Close bar"
    let ?s = "tickStart rnd e t0 bar"
    have "processPending rnd bar ?s = processPending rnd bar (?s\<lparr>limitFailed := m, pending := rest\<rparr>)"
      using h assms(1) by (intro proc) simp_all
    then have "processPending rnd bar ?s
                = processPending rnd bar (tickStart rnd (e\<lparr>limitFailed := m, pending := rest\<rparr>) t0 bar)"
      by (simp add: tickStart_drop_head)
    then show "tickBarAt rnd e smb t0 bar = tickBarAt rnd (e\<lparr>limitFailed := m, pending := rest\<rparr>) smb t0 bar
                 \<and> \<not> isl (tickBarAt rnd e smb t0 bar)"
      using h by (simp add: tickBarAt_tickStart)
  qed
  have c: "limitFailed (e\<lparr>limitFailed := m, pending := rest\<rparr>) ''position_state_mismatch''
                = Some ((case limitFailed e ''position_state_mismatch'' of
                           None \<Rightarrow> 0 | Some c \<Rightarrow> c) + 1)"
    by (simp add: m_def incr_def split: option.splits)
  have d: "orders (e\<lparr>limitFailed := m, pending := rest\<rparr>) = orders e
           \<and> executedByID (e\<lparr>limitFailed := m, pending := rest\<rparr>) = executedByID e
           \<and> position (e\<lparr>limitFailed := m, pending := rest\<rparr>) = position e
           \<and> usd (e\<lparr>limitFailed := m, pending := rest\<rparr>) = usd e"
    by simp
  show ?thesis
    unfolding Let_def m_def [symmetric] using a b c d by blast
qed


text \<open>
  A long of half the balance is open, and a long limit at 100, placed at tick 1, has
  missed the bar of tick 2.
\<close>

lemma pricedFlat_more:
  "symbol pricedFlat = ''btc''" "nextLimitID pricedFlat = 0" "limitFailed pricedFlat = Map.empty"
  "lastBar pricedFlat = \<lparr>Open = 100, High = 100, Low = 100, Close = 100, Average = 100\<rparr>"
  "misses pricedFlat = []" "nextID pricedFlat = 0"
  by (simp_all add: pricedFlat_def tickBarAt_def NewExchange_def updateSpread_def
        processPending_def Let_def)

definition mismatchQueue :: Exchange where
  "mismatchQueue =
     (case LongLimit pricedFlat 100 1 of
        Inr (e1, _) \<Rightarrow>
          (case OpenLong exact e1 0.5 of
             Inr (e2, _) \<Rightarrow>
               (case tickBarAt exact e2 ''btc'' 2
                       \<lparr>Open = 200, High = 210, Low = 200, Close = 205, Average = 204\<rparr> of
                  Inr (e3, _) \<Rightarrow> e3)))"

lemma mismatchQueue_fields:
  "pending mismatchQueue =
     [\<lparr>id_pending = 1, kind = pendingOpenLong, price = 100, fraction = 1, reason = [],
       stopKind = [], placedAtTick = 1, lastReason = ''price_not_in_hl'',
       placedBar = \<lparr>Open = 100, High = 100, Low = 100, Close = 100, Average = 100\<rparr>\<rparr>]"
  "symbol mismatchQueue = ''btc''" "length (orders mismatchQueue) = 1"
  "position mismatchQueue = 4.995" "tick mismatchQueue = 2"
  "limitFailed mismatchQueue ''position_state_mismatch'' = None"
  by (simp_all add: mismatchQueue_def LongLimit_def OpenLong_def openLongAtPrice_def
        pricedFlat_fields pricedFlat_more Let_def tickBarAt_def updateSpread_def
        processPending_def pendingLoop.simps pendingIter_def priceInRange_def incr_def mkMiss_def
        Balance_def recordOrder_def execPrice_def applySpread_def applySlippage_def)

theorem position_state_mismatch_drop_witness:
  "(case tickBarAt exact mismatchQueue ''btc'' 3
           \<lparr>Open = 100, High = 110, Low = 90, Close = 105, Average = 101\<rparr> of
      Inl err \<Rightarrow> False
    | Inr (e1, first) \<Rightarrow>
        first = None \<and> pending e1 = [] \<and> orders e1 = orders mismatchQueue
        \<and> position e1 = position mismatchQueue
        \<and> limitFailed e1 ''position_state_mismatch'' = Some 1)"
proof -
  let ?bar = "\<lparr>Open = 100, High = 110, Low = 90, Close = 105, Average = 101\<rparr>"
  let ?e1 = "mismatchQueue\<lparr>limitFailed := incr (limitFailed mismatchQueue) ''position_state_mismatch'',
                           pending := []\<rparr>"
  have r: "priceInRange (price (hd (pending mismatchQueue))) (Low ?bar) (High ?bar)"
    by (simp add: mismatchQueue_fields priceInRange_def)
  have k: "if kind (hd (pending mismatchQueue)) = pendingClose then position mismatchQueue = 0
           else position mismatchQueue \<noteq> 0"
    by (simp add: mismatchQueue_fields)
  have p: "pending mismatchQueue = hd (pending mismatchQueue) # []"
    by (simp add: mismatchQueue_fields)
  from position_state_mismatch_drop [OF p r k, where ?t0.0 = 3 and smb = "''btc''"
           and firstExecuted = None and rnd = exact]
  have "tickBarAt exact mismatchQueue ''btc'' 3 ?bar = tickBarAt exact ?e1 ''btc'' 3 ?bar"
    and "pendingIter exact ?bar mismatchQueue = Continue ?e1 None"
    by (simp_all add: Let_def mismatchQueue_fields)
  then show ?thesis
    by (simp add: tickBarAt_tickStart processPending_def mismatchQueue_fields incr_def)
qed

section \<open>Stepping the emulator\<close>

lemma tickBarAt_orders:
  assumes "tickBarAt rnd e smb t0 bar = Inr (e1, first)"
  shows "orders e1 = orders e @ drop (length (orders e)) (orders e1)"
proof -
  define s where "s = tickStart rnd e t0 bar"
  define s1 where "s1 = fst (processPending rnd bar s)"
  have e1: "e1 = s1\<lparr>lastBar := bar, hasLastBar := True\<rparr>"
    using assms by (simp add: tickBarAt_Inr s_def s1_def)
  have "drained s s1" unfolding s1_def by (intro drained_processPending drained_refl)
  then have "take (length (orders s)) (orders s1) = orders s"
    unfolding drained_def by blast
  then have "take (length (orders e)) (orders e1) = orders e"
    by (simp add: e1 s_def)
  then show ?thesis
    by (metis append_take_drop_id)
qed

lemma tick_processPending: "tick (fst (processPending rnd bar e)) = tick e"
  using drained_processPending [OF drained_refl, of e rnd bar] by (simp add: drained_def)

lemma symbol_processPending: "symbol (fst (processPending rnd bar e)) = symbol e"
proof -
  have "symbol (fst (pendingLoop rnd bar e None)) = symbol e"
    by (rule pendingLoop_preserves [where P = "\<lambda>b s. symbol s = symbol e"])
       (auto simp: pendingIter_def Let_def split: list.splits pendingKind.splits sum.splits prod.splits
             dest!: openLongAtPrice_frame openShortAtPrice_frame closeAtPrice_frame)
  then show ?thesis
    by (auto simp: processPending_def Let_def split: prod.splits list.splits)
qed

lemma symbol_limits:
  "LongLimit e pr fr = Inr (e1, i) \<Longrightarrow> symbol e1 = symbol e"
  "ShortLimit e pr fr = Inr (e1, i) \<Longrightarrow> symbol e1 = symbol e"
  "CloseLimit e pr rsn sk = Inr (e1, i) \<Longrightarrow> symbol e1 = symbol e"
  by (auto simp: LongLimit_def ShortLimit_def CloseLimit_def Let_def split: if_splits)

lemma symbol_CloseDeal: "CloseDeal rnd e rsn = Inr (e1, ord) \<Longrightarrow> symbol e1 = symbol e"
  by (auto simp: CloseDeal_def Let_def split: if_splits prod.splits dest!: closeAtPrice_frame)

lemma symbol_tickBarAt: "tickBarAt rnd e smb t0 bar = Inr (e1, first) \<Longrightarrow> symbol e1 = symbol e"
  by (simp add: tickBarAt_Inr symbol_processPending)

lemma symbol_applyCall: "symbol (applyCall rnd e c) = symbol e"
proof (cases c)
  case (CallOpenLong fr)
  then show ?thesis
    by (auto simp: OpenLong_def split: sum.splits dest!: openLongAtPrice_frame)
next
  case (CallOpenShort fr)
  then show ?thesis
    by (auto simp: OpenShort_def split: sum.splits dest!: openShortAtPrice_frame)
next
  case (CallCloseDeal rsn)
  then show ?thesis by (auto split: sum.splits dest: symbol_CloseDeal)
next
  case (CallLongLimit pr fr)
  then show ?thesis by (auto split: sum.splits dest: symbol_limits)
next
  case (CallShortLimit pr fr)
  then show ?thesis by (auto split: sum.splits dest: symbol_limits)
next
  case (CallCloseLimit pr rsn sk)
  then show ?thesis by (auto split: sum.splits dest: symbol_limits)
next
  case (CallOpenLongLimit pr fr)
  then show ?thesis by (auto simp: OpenLongLimit_def split: sum.splits dest: symbol_limits)
next
  case (CallOpenShortLimit pr fr)
  then show ?thesis by (auto simp: OpenShortLimit_def split: sum.splits dest: symbol_limits)
next
  case (CallCloseDealLimit pr rsn sk)
  then show ?thesis by (auto simp: CloseDealLimit_def split: sum.splits dest: symbol_limits)
next
  case (CallTickBarAt smb t bar)
  then show ?thesis by (auto split: sum.splits dest: symbol_tickBarAt)
qed

text \<open>
  C9: for an emulator whose symbol is its exchange's (as \<^verbatim>\<open>NewEmulator\<close> builds it,
  and as every step keeps it) over bars that all have a positive close, \<^verbatim>\<open>Next\<close>
  fails with \<^verbatim>\<open>ErrNoMoreBars\<close> exactly when the cursor is past the last bar.
  Otherwise it succeeds: it returns the bar at the cursor; the exchange after the step
  is the one \<^verbatim>\<open>tickBarAt\<close> gives for that bar at tick \<open>index + 1\<close>; the orders
  returned are exactly those appended to the history in the step, in order; and the
  cursor advances by one.
\<close>

theorem Next_step:
  assumes "symbol_em em = symbol (ex em)" and "\<forall>b \<in> set (bars em). 0 < Close b"
  shows "(Next rnd em = Inl ErrNoMoreBars) = (length (bars em) \<le> index em)
    \<and> (index em < length (bars em) \<longrightarrow>
         (case Next rnd em of
            Inl err \<Rightarrow> False
          | Inr (em1, bar, executed) \<Rightarrow>
              bar = bars em ! index em
              \<and> (case tickBarAt rnd (ex em) (symbol_em em) (int (index em + 1)) bar of
                    Inl err \<Rightarrow> False
                  | Inr (ex1, first) \<Rightarrow> ex em1 = ex1)
              \<and> tick (ex em1) = int (index em) + 1
              \<and> orders (ex em1) = orders (ex em) @ executed
              \<and> index em1 = index em + 1
              \<and> bars em1 = bars em
              \<and> symbol_em em1 = symbol_em em
              \<and> symbol_em em1 = symbol (ex em1)))"
proof (cases "index em < length (bars em)")
  case False
  then show ?thesis by (simp add: Next_def)
next
  case True
  define bar where "bar = bars em ! index em"
  have cl: "0 < Close bar" using assms(2) True by (simp add: bar_def)
  obtain ex1 first where t: "tickBarAt rnd (ex em) (symbol_em em) (int (index em + 1)) bar = Inr (ex1, first)"
    using assms(1) cl tickBarAt_Inr [of rnd "ex em" "symbol_em em" "int (index em + 1)" bar] by simp
  note o = tickBarAt_orders [OF t]
  have len: "length (orders (ex em)) \<le> length (orders ex1)"
    using o by (metis le_add1 length_append)
  have tk: "tick ex1 = int (index em) + 1" "symbol ex1 = symbol (ex em)"
    using t by (simp_all add: tickBarAt_Inr symbol_processPending tick_processPending)
  have n: "Next rnd em = Inr (em\<lparr>ex := ex1, index := index em + 1\<rparr>, bar,
                     drop (length (orders (ex em))) (orders ex1))"
  proof (cases "length (orders (ex em)) < length (orders ex1)")
    case True
    with \<open>index em < length (bars em)\<close> t show ?thesis
      by (simp add: Next_def Let_def Orders_def bar_def)
  next
    case False
    with len have "length (orders ex1) = length (orders (ex em))" by simp
    with \<open>index em < length (bars em)\<close> t show ?thesis
      by (simp add: Next_def Let_def Orders_def bar_def)
  qed
  show ?thesis
    using True n t o tk assms(1) by (simp add: bar_def)
qed


lemma NewEmulator_Inr:
  "NewEmulator smb0 startUSD fee0 slippagePct0 spreadPct0 bs = Inr em \<Longrightarrow>
     symbol_em em = symbol (ex em) \<and> symbol_em em = TrimSpace smb0 \<and> bars em = bs \<and> bs \<noteq> []
     \<and> index em = 0 \<and> ex em = NewExchange (TrimSpace smb0) startUSD fee0 slippagePct0 spreadPct0"
  by (auto simp: NewEmulator_def NewExchange_def Let_def split: if_splits)

text \<open>
  An emulator over two bars, after its first step and a long limit at 100 placed on
  its exchange.
\<close>

definition demoEmulator :: Emulator where
  "demoEmulator =
     (case NewEmulator '' btc'' 1000 0.001 0 0
             [\<lparr>Open = 100, High = 100, Low = 100, Close = 100, Average = 100\<rparr>,
              \<lparr>Open = 100, High = 110, Low = 90, Close = 105, Average = 101\<rparr>] of
        Inr em \<Rightarrow>
          (case Next exact em of
             Inr (em1, _, _) \<Rightarrow>
               (case LongLimit (ex em1) 100 1 of Inr (ex1, _) \<Rightarrow> em1\<lparr>ex := ex1\<rparr>)))"

lemma demoEmulator_fields:
  "bars demoEmulator =
     [\<lparr>Open = 100, High = 100, Low = 100, Close = 100, Average = 100\<rparr>,
      \<lparr>Open = 100, High = 110, Low = 90, Close = 105, Average = 101\<rparr>]"
  "index demoEmulator = 1" "symbol_em demoEmulator = ''btc''"
  "symbol (ex demoEmulator) = ''btc''" "orders (ex demoEmulator) = []"
  "map placedAtTick (pending (ex demoEmulator)) = [1]"
  by (simp_all add: demoEmulator_def NewEmulator_def TrimSpace_def spaceRunes_def dropRunes.simps Next_def
        Orders_def LongLimit_def Let_def tickBarAt_def NewExchange_def updateSpread_def
        processPending_def)

theorem Next_step_witness:
  "list_all (\<lambda>b. 0 < Close b) (bars demoEmulator)
   \<and> index demoEmulator < length (bars demoEmulator)
   \<and> (case Next exact demoEmulator of
         Inl err \<Rightarrow> False
       | Inr (em1, bar, executed) \<Rightarrow>
           bar = \<lparr>Open = 100, High = 110, Low = 90, Close = 105, Average = 101\<rparr>
           \<and> map Reason executed = [ReasonEntryLong]
           \<and> orders (ex em1) = executed
           \<and> tick (ex em1) = 2 \<and> index em1 = 2
           \<and> Next exact em1 = Inl ErrNoMoreBars)"
proof -
  have b: "\<forall>b \<in> set (bars demoEmulator). 0 < Close b"
    by (simp add: demoEmulator_fields)
  have s: "symbol_em demoEmulator = symbol (ex demoEmulator)"
    by (simp add: demoEmulator_fields)
  have i: "index demoEmulator < length (bars demoEmulator)"
    by (simp add: demoEmulator_fields)
  obtain em1 bar executed where n: "Next exact demoEmulator = Inr (em1, bar, executed)"
    using Next_step [OF s b, where rnd = exact] i by (auto split: sum.splits)
  have r: "map Reason (orders (ex em1)) = [ReasonEntryLong]"
    using n
    by (auto simp: demoEmulator_def NewEmulator_def TrimSpace_def spaceRunes_def dropRunes.simps Next_def
        Orders_def LongLimit_def Let_def tickBarAt_def NewExchange_def updateSpread_def
        processPending_def pendingLoop.simps pendingIter_def priceInRange_def
        openLongAtPrice_def Balance_def recordOrder_def execPrice_def applySpread_def
        applySlippage_def)
  have e: "index em1 = 2 \<Longrightarrow> bars em1 = bars demoEmulator \<Longrightarrow> Next exact em1 = Inl ErrNoMoreBars"
    by (simp add: Next_def demoEmulator_fields)
  from Next_step [OF s b, where rnd = exact] i n r e show ?thesis
    by (simp add: demoEmulator_fields)
qed

section \<open>The long round trip\<close>













end
